theory Spec2Isabelle
  imports Main "HOL-Library.Word"
begin

unbundle bit_operations_syntax

section \<open>Python values and exceptions\<close>

text \<open>
  The values \<^verbatim>\<open>json.loads\<close> builds from the output of ffprobe. A JSON object is kept
  as the list of its key/value pairs and is looked up with \<open>map_of\<close>. JSON numbers are
  integers here: ffprobe prints the index, the width and the height of a stream as
  integers. Python's \<^verbatim>\<open>None\<close> is \<open>JNull\<close>.
\<close>

datatype json =
    JNull
  | JBool bool
  | JInt int
  | JStr string
  | JArr "json list"
  | JObj "(string \<times> json) list"

text \<open>The exceptions (all subclasses of \<^verbatim>\<open>Exception\<close>) the modelled code can meet.\<close>

datatype exn =
    CalledProcessError
  | FileNotFoundError
  | UnicodeDecodeError
  | JSONDecodeError
  | AttributeError
  | TypeError
  | ValueError
  | OverflowError
  | MemoryError
  | OSError

text \<open>\<^verbatim>\<open>obj.get(key, default)\<close>: only a dict has the method.\<close>

fun dict_get :: "json \<Rightarrow> string \<Rightarrow> json \<Rightarrow> exn + json" where
  "dict_get (JObj kvs) k d = Inr (case map_of kvs k of None \<Rightarrow> d | Some v \<Rightarrow> v)"
| "dict_get _ k d = Inl AttributeError"

text \<open>
  \<^verbatim>\<open>for stream in x\<close>: a list yields its elements, a dict its keys, a string its
  characters; nothing else that JSON can hold is iterable.
\<close>

fun py_iter :: "json \<Rightarrow> exn + json list" where
  "py_iter (JArr xs) = Inr xs"
| "py_iter (JObj kvs) = Inr (map (\<lambda>kv. JStr (fst kv)) kvs)"
| "py_iter (JStr s) = Inr (map (\<lambda>c. JStr [c]) s)"
| "py_iter _ = Inl TypeError"

text \<open>
  \<^verbatim>\<open>int(v)\<close>. What Python's \<^verbatim>\<open>int\<close> makes of a string is a builtin and not code of
  the repository: it is the parameter \<open>si\<close>, \<open>None\<close> where \<^verbatim>\<open>int\<close> raises ValueError.
\<close>

fun py_int :: "(string \<Rightarrow> int option) \<Rightarrow> json \<Rightarrow> exn + int" where
  "py_int si (JInt i) = Inr i"
| "py_int si (JBool b) = Inr (if b then 1 else 0)"
| "py_int si (JStr s) = (case si s of None \<Rightarrow> Inl ValueError | Some i \<Rightarrow> Inr i)"
| "py_int si _ = Inl TypeError"

text \<open>Truthiness, as \<^verbatim>\<open>if v\<close> and \<^verbatim>\<open>v and w\<close> test it.\<close>

fun truthy :: "json \<Rightarrow> bool" where
  "truthy JNull = False"
| "truthy (JBool b) = b"
| "truthy (JInt i) = (i \<noteq> 0)"
| "truthy (JStr s) = (s \<noteq> [])"
| "truthy (JArr xs) = (xs \<noteq> [])"
| "truthy (JObj kvs) = (kvs \<noteq> [])"

section \<open>The stream prober: \<^verbatim>\<open>get_highest_res_stream_index\<close>\<close>

text \<open>The loop variables \<^verbatim>\<open>best_idx\<close>, \<^verbatim>\<open>best_area\<close>, \<^verbatim>\<open>best_w\<close>, \<^verbatim>\<open>best_h\<close>.\<close>

record best =
  best_idx :: json
  best_area :: int
  best_w :: json
  best_h :: json

definition best_init :: best where
  "best_init = \<lparr>best_idx = JNull, best_area = 0, best_w = JInt 0, best_h = JInt 0\<rparr>"

text \<open>
  The inner \<^verbatim>\<open>try\<close> of the loop body (lines 29 to 37): the area is computed from
  \<^verbatim>\<open>int(w) * int(h)\<close>, and a stream whose width or height does not convert is skipped.
\<close>

definition try_area :: "(string \<Rightarrow> int option) \<Rightarrow> json \<Rightarrow> json \<Rightarrow> json \<Rightarrow> best \<Rightarrow> best" where
  "try_area si w h idx b =
     (case py_int si w of
        Inl e \<Rightarrow> b
      | Inr iw \<Rightarrow>
         (case py_int si h of
            Inl e \<Rightarrow> b
          | Inr ih \<Rightarrow>
              if iw * ih > best_area b
              then \<lparr>best_idx = idx, best_area = iw * ih, best_w = w, best_h = h\<rparr>
              else b))"

text \<open>
  One pass of the \<^verbatim>\<open>for\<close> loop (lines 25 to 37). The calls of \<^verbatim>\<open>stream.get\<close> stand
  outside the inner \<^verbatim>\<open>try\<close>: what they raise leaves the loop.
\<close>

definition select_step :: "(string \<Rightarrow> int option) \<Rightarrow> json \<Rightarrow> best \<Rightarrow> exn + best" where
  "select_step si stream b =
     (case dict_get stream ''codec_type'' JNull of
        Inl e \<Rightarrow> Inl e
      | Inr ct \<Rightarrow>
          if ct = JStr ''video'' then
            (case dict_get stream ''width'' (JInt 0) of
               Inl e \<Rightarrow> Inl e
             | Inr w \<Rightarrow>
                (case dict_get stream ''height'' (JInt 0) of
                   Inl e \<Rightarrow> Inl e
                 | Inr h \<Rightarrow>
                    (case dict_get stream ''index'' JNull of
                       Inl e \<Rightarrow> Inl e
                     | Inr idx \<Rightarrow> Inr (try_area si w h idx b))))
          else Inr b)"

fun select_loop :: "(string \<Rightarrow> int option) \<Rightarrow> json list \<Rightarrow> best \<Rightarrow> exn + best" where
  "select_loop si [] b = Inr b"
| "select_loop si (stream # rest) b =
     (case select_step si stream b of
        Inl e \<Rightarrow> Inl e
      | Inr b' \<Rightarrow> select_loop si rest b')"

definition default_descriptor :: "json \<times> json \<times> json" where
  "default_descriptor = (JInt 0, JInt 640, JInt 360)"

text \<open>
  The body of the outer \<^verbatim>\<open>try\<close> (lines 17 to 43). \<open>out\<close> is what lines 17 to 19 give:
  the exception of \<^verbatim>\<open>check_output\<close>, \<^verbatim>\<open>decode\<close> or \<^verbatim>\<open>json.loads\<close>, or the parsed
  value \<^verbatim>\<open>info\<close>.
\<close>

definition probe_body :: "(string \<Rightarrow> int option) \<Rightarrow> exn + json \<Rightarrow> exn + (json \<times> json \<times> json)" where
  "probe_body si out =
     (case out of
        Inl e \<Rightarrow> Inl e
      | Inr info \<Rightarrow>
         (case dict_get info ''streams'' (JArr []) of
            Inl e \<Rightarrow> Inl e
          | Inr ss \<Rightarrow>
             (case py_iter ss of
                Inl e \<Rightarrow> Inl e
              | Inr streams \<Rightarrow>
                 (case select_loop si streams best_init of
                    Inl e \<Rightarrow> Inl e
                  | Inr b \<Rightarrow>
                      if best_idx b \<noteq> JNull
                      then Inr (best_idx b, best_w b, best_h b)
                      else Inr default_descriptor))))"

text \<open>The whole function: \<^verbatim>\<open>except Exception\<close> (lines 44 to 46) returns the default.\<close>

definition get_highest_res_stream_index ::
  "(string \<Rightarrow> int option) \<Rightarrow> exn + json \<Rightarrow> json \<times> json \<times> json" where
  "get_highest_res_stream_index si out =
     (case probe_body si out of
        Inl e \<Rightarrow> default_descriptor
      | Inr r \<Rightarrow> r)"


text \<open>
  What the claims about the prober speak of. \<open>fld d k dflt\<close> is \<^verbatim>\<open>d.get(k, dflt)\<close> on
  the pairs of a dict; \<open>area\<close> is the product the loop compares, for a video stream whose
  width and height convert (a missing width or height counts as 0); \<open>largest_first si ds i\<close>
  says that stream \<open>i\<close> has a positive area, that no stream has a larger one and that every
  earlier stream has a smaller one; \<open>descriptor_of\<close> is what line 38 to 43 return
  for the selected stream.
\<close>

definition fld :: "(string \<times> json) list \<Rightarrow> string \<Rightarrow> json \<Rightarrow> json" where
  "fld d k dflt = (case map_of d k of None \<Rightarrow> dflt | Some v \<Rightarrow> v)"

definition area :: "(string \<Rightarrow> int option) \<Rightarrow> (string \<times> json) list \<Rightarrow> int option" where
  "area si d =
     (if fld d ''codec_type'' JNull = JStr ''video'' then
        (case py_int si (fld d ''width'' (JInt 0)) of
           Inl e \<Rightarrow> None
         | Inr w \<Rightarrow>
            (case py_int si (fld d ''height'' (JInt 0)) of
               Inl e \<Rightarrow> None
             | Inr h \<Rightarrow> Some (w * h)))
      else None)"

definition positive_area :: "(string \<Rightarrow> int option) \<Rightarrow> (string \<times> json) list \<Rightarrow> bool" where
  "positive_area si d = (case area si d of None \<Rightarrow> False | Some a \<Rightarrow> 0 < a)"

definition largest_first ::
  "(string \<Rightarrow> int option) \<Rightarrow> (string \<times> json) list list \<Rightarrow> nat \<Rightarrow> bool" where
  "largest_first si ds i \<longleftrightarrow>
     i < length ds \<and>
     (case area si (ds ! i) of
        None \<Rightarrow> False
      | Some a \<Rightarrow>
          0 < a \<and>
          (\<forall>j < length ds. case area si (ds ! j) of None \<Rightarrow> True | Some b \<Rightarrow> b \<le> a) \<and>
          (\<forall>j < i. case area si (ds ! j) of None \<Rightarrow> True | Some b \<Rightarrow> b < a))"

definition descriptor_of :: "(string \<times> json) list \<Rightarrow> json \<times> json \<times> json" where
  "descriptor_of d =
     (if fld d ''index'' JNull = JNull then default_descriptor
      else (fld d ''index'' JNull, fld d ''width'' (JInt 0), fld d ''height'' (JInt 0)))"

text \<open>No element that the loop visits is a video stream.\<close>

definition no_video_track :: "json \<Rightarrow> bool" where
  "no_video_track info =
     (case dict_get info ''streams'' (JArr []) of
        Inl e \<Rightarrow> True
      | Inr ss \<Rightarrow>
         (case py_iter ss of
            Inl e \<Rightarrow> True
          | Inr streams \<Rightarrow>
              list_all (\<lambda>s. dict_get s ''codec_type'' JNull \<noteq> Inr (JStr ''video'')) streams))"

text \<open>The loop variables after the stream \<open>d\<close> of area \<open>a\<close> has been taken.\<close>

definition picked :: "(string \<times> json) list \<Rightarrow> int \<Rightarrow> best" where
  "picked d a = \<lparr>best_idx = fld d ''index'' JNull, best_area = a,
                 best_w = fld d ''width'' (JInt 0), best_h = fld d ''height'' (JInt 0)\<rparr>"

text \<open>The loop invariant of the selection, over the streams seen so far.\<close>

definition sel_inv :: "(string \<Rightarrow> int option) \<Rightarrow> (string \<times> json) list list \<Rightarrow> best \<Rightarrow> bool" where
  "sel_inv si ds b \<longleftrightarrow>
     (b = best_init \<and> (\<forall>d \<in> set ds. case area si d of None \<Rightarrow> True | Some a \<Rightarrow> a \<le> 0)) \<or>
     (\<exists>i a. largest_first si ds i \<and> area si (ds ! i) = Some a \<and> b = picked (ds ! i) a)"

text \<open>A probe result with four video streams, the last without dimensions.\<close>

definition ex_streams :: "(string \<times> json) list list" where
  "ex_streams =
     [[(''index'', JInt 0), (''codec_type'', JStr ''video''), (''width'', JInt 640), (''height'', JInt 360)],
      [(''index'', JInt 1), (''codec_type'', JStr ''video''), (''width'', JInt 1920), (''height'', JInt 1080)],
      [(''index'', JInt 2), (''codec_type'', JStr ''video''), (''width'', JInt 1080), (''height'', JInt 1920)],
      [(''index'', JInt 3), (''codec_type'', JStr ''video'')]]"

section \<open>The decoder command: \<^verbatim>\<open>build_ffmpeg_cmd\<close>\<close>

text \<open>
  An argument of the command line: a literal, \<^verbatim>\<open>f"0:{stream_idx}"\<close> or
  \<^verbatim>\<open>f"scale={out_w}:{out_h}"\<close>. The formatted values are kept, not their text.
\<close>

datatype arg = Lit string | MapStream json | Scale json json

type_synonym cmd = "arg list"

text \<open>\<^verbatim>\<open>width if width else stream_w\<close>, for the optional integer of the command line.\<close>

definition override :: "int option \<Rightarrow> json \<Rightarrow> json" where
  "override given probed =
     (case given of
        None \<Rightarrow> probed
      | Some n \<Rightarrow> if n \<noteq> 0 then JInt n else probed)"

definition build_ffmpeg_cmd ::
  "(string \<Rightarrow> int option) \<Rightarrow> exn + json \<Rightarrow> string \<Rightarrow> bool \<Rightarrow> int option \<Rightarrow> int option
     \<Rightarrow> cmd \<times> json \<times> json" where
  "build_ffmpeg_cmd si out u use_gpu w h =
     (case get_highest_res_stream_index si out of
        (stream_idx, stream_w, stream_h) \<Rightarrow>
          let out_w = override w stream_w;
              out_h = override h stream_h;
              c = (if use_gpu
                   then [Lit ''ffmpeg'', Lit ''-hide_banner'', Lit ''-loglevel'', Lit ''info'',
                         Lit ''-hwaccel'', Lit ''cuda'', Lit ''-hwaccel_output_format'', Lit ''cuda'',
                         Lit ''-i'', Lit u, Lit ''-map'', MapStream stream_idx, Lit ''-an'',
                         Lit ''-f'', Lit ''rawvideo'', Lit ''-pix_fmt'', Lit ''bgr24'']
                   else [Lit ''ffmpeg'', Lit ''-hide_banner'', Lit ''-loglevel'', Lit ''info'',
                         Lit ''-fflags'', Lit ''+genpts'',
                         Lit ''-i'', Lit u, Lit ''-map'', MapStream stream_idx, Lit ''-an'',
                         Lit ''-f'', Lit ''rawvideo'', Lit ''-pix_fmt'', Lit ''bgr24''])
          in (c @ (if truthy out_w \<and> truthy out_h then [Lit ''-vf'', Scale out_w out_h] else [])
                @ [Lit ''-''],
              out_w, out_h))"

section \<open>The frame buffer: \<^verbatim>\<open>queue.Queue(maxsize=30)\<close>\<close>

type_synonym byte = "8 word"

type_synonym frame = "byte list"

text \<open>
  The queue of the standard library is a deque behind a lock: \<^verbatim>\<open>put\<close> appends on the
  right once fewer than \<^verbatim>\<open>maxsize\<close> items are held (\<open>m\<close> below; 0 means no bound),
  \<^verbatim>\<open>get\<close> takes from the left once an item is held. \<open>None\<close> says that the caller
  cannot go on yet: \<^verbatim>\<open>put\<close> waits for room, \<^verbatim>\<open>get\<close> waits for an item (and raises
  \<^verbatim>\<open>queue.Empty\<close> when its timeout runs out first).
\<close>

definition queue_put :: "nat \<Rightarrow> 'a list \<Rightarrow> 'a \<Rightarrow> 'a list option" where
  "queue_put m q x = (if 0 < m \<and> m \<le> length q then None else Some (q @ [x]))"

definition queue_get :: "'a list \<Rightarrow> ('a \<times> 'a list) option" where
  "queue_get q = (case q of [] \<Rightarrow> None | x # rest \<Rightarrow> Some (x, rest))"

text \<open>Line 148.\<close>

definition maxsize :: nat where
  "maxsize = 30"

text \<open>A producer that puts the items of a list one after the other; \<open>None\<close> when a put must wait.\<close>

fun put_all :: "nat \<Rightarrow> 'a list \<Rightarrow> 'a list \<Rightarrow> 'a list option" where
  "put_all k q [] = Some q"
| "put_all k q (x # xs) = (case queue_put k q x of None \<Rightarrow> None | Some q' \<Rightarrow> put_all k q' xs)"

text \<open>A consumer that gets \<open>n\<close> times: what it received, in order, and what the queue still holds.\<close>

fun get_n :: "nat \<Rightarrow> 'a list \<Rightarrow> ('a list \<times> 'a list) option" where
  "get_n 0 q = Some ([], q)"
| "get_n (Suc n) q =
     (case queue_get q of
        None \<Rightarrow> None
      | Some (x, q') \<Rightarrow> (case get_n n q' of None \<Rightarrow> None | Some (xs, q'') \<Rightarrow> Some (x # xs, q'')))"

section \<open>What the program does, as a trace\<close>

text \<open>
  The calls with an effect outside the function that makes them, in the order they are made.
  \<open>Probe out\<close> is one run of ffprobe with its outcome; \<open>StartReader g c w h\<close> starts the reader
  thread on \<^verbatim>\<open>(cmd, width, height)\<close> while \<^verbatim>\<open>use_gpu\<close> is \<open>g\<close>; \<open>Kill p\<close> kills the
  process of the \<open>p\<close>-th call of \<^verbatim>\<open>Popen\<close>.
\<close>

datatype action =
    Probe "exn + json"
  | StartReader bool cmd json json
  | StopSet
  | StopClear
  | Join
  | Imshow frame
  | DestroyAllWindows
  | Popen cmd
  | Kill nat
  | Sleep nat
  | QueuePut frame

section \<open>The supervisor and framer: \<^verbatim>\<open>frame_reader\<close>\<close>

text \<open>
  The standard output of a decode process: the bytes it writes, and how the pipe ends after
  them, closed (end of file) or with a read that raises.
\<close>

datatype pipe_end = EOF | ReadFails

text \<open>What a call of \<^verbatim>\<open>subprocess.Popen\<close> gives: an exception, or a running process.\<close>

datatype launch = LaunchRaises | Started "byte list" pipe_end

text \<open>
  What the reader thread meets outside itself: \<open>launch_at i\<close> is what the \<open>i\<close>-th call of
  \<^verbatim>\<open>Popen\<close> gives, and \<open>read_max\<close> is the largest number of bytes for which a read
  still gets its buffer from the allocator (taken as fixed during a run).
\<close>

record renv =
  launch_at :: "nat \<Rightarrow> launch"
  read_max :: int

text \<open>\<^verbatim>\<open>sys.maxsize\<close>, the largest C \<^verbatim>\<open>ssize_t\<close>, of a 64-bit interpreter.\<close>

definition sys_maxsize :: int where
  "sys_maxsize = 2 ^ 63 - 1"

text \<open>
  \<^verbatim>\<open>proc.stdout.read(n)\<close> on the buffered reader of the pipe, with \<open>m\<close> the largest
  buffer that can be allocated. A size that does not fit a \<^verbatim>\<open>ssize_t\<close> raises
  OverflowError, another size below \<open>-1\<close> raises ValueError, and a size whose buffer
  cannot be allocated raises MemoryError (for a size close to \<^verbatim>\<open>sys.maxsize\<close> the
  interpreter may name the failed allocation OverflowError; the handler of line 132 treats
  all of them alike). Otherwise the read waits until \<open>n\<close> bytes are there or the pipe has
  ended; \<open>-1\<close> reads to the end. The result is the bytes read and the bytes left.
\<close>

definition pipe_read ::
  "int \<Rightarrow> int \<Rightarrow> byte list \<Rightarrow> pipe_end \<Rightarrow> exn + (byte list \<times> byte list)" where
  "pipe_read m n bs e =
     (if n < - sys_maxsize - 1 \<or> sys_maxsize < n then Inl OverflowError
      else if n < - 1 then Inl ValueError
      else if m < n \<or> (n = - 1 \<and> m < int (length bs)) then Inl MemoryError
      else if 0 \<le> n \<and> nat n \<le> length bs then Inr (take (nat n) bs, drop (nat n) bs)
      else (case e of EOF \<Rightarrow> Inr (bs, []) | ReadFails \<Rightarrow> Inl OSError))"

text \<open>
  \<^verbatim>\<open>np.frombuffer(raw, np.uint8).reshape((height, width, 3))\<close> succeeds when the sizes
  fit. (numpy also accepts one dimension of \<open>-1\<close>; at line 124 the frame size is positive
  and \<open>raw\<close> has that length, so that a negative dimension means two of them, which numpy
  refuses.)
\<close>

definition reshape_ok :: "int \<Rightarrow> int \<Rightarrow> byte list \<Rightarrow> bool" where
  "reshape_ok w h raw \<longleftrightarrow> 0 \<le> h \<and> 0 \<le> w \<and> int (length raw) = h * w * 3"

text \<open>
  The reader thread runs beside the main thread, so it is a step function: between two
  steps the other threads may act on the event and on the queue. A step runs from one
  access of the shared state to the next.
  \<^item> \<open>OuterHead\<close>: at line 112, before \<^verbatim>\<open>stop_event.is_set()\<close>;
  \<^item> \<open>InnerHead\<close>: at line 117, before \<^verbatim>\<open>stop_event.is_set()\<close>;
  \<^item> \<open>Putting f\<close>: at line 128, in \<^verbatim>\<open>frame_queue.put(frame)\<close>;
  \<^item> \<open>Returned\<close>: the function has returned.
\<close>

datatype pc = OuterHead | InnerHead | Putting frame | Returned

text \<open>
  \<open>stop_event\<close> and \<open>frame_queue\<close> are shared with the main thread. \<open>stdout\<close> and \<open>ending\<close>
  are what the current process has still to deliver, \<open>launched\<close> counts the calls of
  \<^verbatim>\<open>Popen\<close>, \<open>proc\<close> is the variable of line 114, \<open>live\<close> are the processes started
  and not killed. \<open>got\<close> keeps what the main thread has taken from the queue.
\<close>

record reader =
  pc :: pc
  stop_event :: bool
  frame_queue :: "frame list"
  stdout :: "byte list"
  ending :: pipe_end
  launched :: nat
  proc :: "nat option"
  live :: "nat list"
  trace :: "action list"
  got :: "frame list"

definition reader_init :: "frame list \<Rightarrow> reader" where
  "reader_init q =
     \<lparr>pc = OuterHead, stop_event = False, frame_queue = q, stdout = [], ending = EOF,
      launched = 0, proc = None, live = [], trace = [], got = []\<rparr>"

text \<open>
  Lines 130 and 131: \<^verbatim>\<open>proc.kill()\<close>, \<^verbatim>\<open>time.sleep(1)\<close>, and back to line 112. The
  variable \<^verbatim>\<open>proc\<close> is bound whenever line 130 is reached; were it not, the NameError
  would be handled at line 132.
\<close>

definition kill_proc :: "reader \<Rightarrow> reader" where
  "kill_proc s =
     (case proc s of
        None \<Rightarrow> s\<lparr>pc := OuterHead, trace := trace s @ [Sleep 2]\<rparr>
      | Some p \<Rightarrow>
          s\<lparr>pc := OuterHead, live := removeAll p (live s), trace := trace s @ [Kill p, Sleep 1]\<rparr>)"

text \<open>
  Lines 132 to 134: an exception in the body of the outer loop is caught, and after
  \<^verbatim>\<open>time.sleep(2)\<close> the loop goes on at line 112.
\<close>

definition handle_exception :: "reader \<Rightarrow> reader" where
  "handle_exception s = s\<lparr>pc := OuterHead, trace := trace s @ [Sleep 2]\<rparr>"

text \<open>
  One step of \<^verbatim>\<open>frame_reader(cmd, width, height, frame_queue, stop_event)\<close>; \<open>None\<close>
  when the thread cannot move, in the environment \<open>denv\<close>.
\<close>

definition reader_step :: "renv \<Rightarrow> cmd \<Rightarrow> int \<Rightarrow> int \<Rightarrow> reader \<Rightarrow> reader option" where
  "reader_step denv c w h s =
     (case pc s of
        Returned \<Rightarrow> None
      | OuterHead \<Rightarrow>
          if stop_event s then Some (s\<lparr>pc := Returned\<rparr>)
          else
            (case launch_at denv (launched s) of
               LaunchRaises \<Rightarrow>
                 Some (handle_exception
                   (s\<lparr>launched := Suc (launched s), trace := trace s @ [Popen c]\<rparr>))
             | Started bs e \<Rightarrow>
                 Some (s\<lparr>pc := InnerHead, launched := Suc (launched s),
                         proc := Some (launched s), live := launched s # live s,
                         stdout := bs, ending := e, trace := trace s @ [Popen c]\<rparr>))
      | InnerHead \<Rightarrow>
          if stop_event s then Some (kill_proc s)
          else
            (case pipe_read (read_max denv) (w * h * 3) (stdout s) (ending s) of
               Inl x \<Rightarrow> Some (handle_exception s)
             | Inr (raw, rest) \<Rightarrow>
                 if raw = [] \<or> int (length raw) < w * h * 3
                 then Some (kill_proc (s\<lparr>stdout := rest\<rparr>))
                 else if reshape_ok w h raw
                 then Some (s\<lparr>pc := Putting raw, stdout := rest\<rparr>)
                 else Some (s\<lparr>stdout := rest\<rparr>))
      | Putting f \<Rightarrow>
          (case queue_put maxsize (frame_queue s) f of
             None \<Rightarrow> None
           | Some q \<Rightarrow>
               Some (s\<lparr>pc := InnerHead, frame_queue := q, trace := trace s @ [QueuePut f]\<rparr>)))"

text \<open>
  What can happen next: the reader takes a step (none when it cannot move), the main thread
  sets the event (lines 179, 183 and 186), or the main thread gets a frame (line 164; on an
  empty queue it gets nothing).
\<close>

datatype event = ReaderStep | MainSetsStop | ConsumerGets

definition exec :: "renv \<Rightarrow> cmd \<Rightarrow> int \<Rightarrow> int \<Rightarrow> event \<Rightarrow> reader \<Rightarrow> reader" where
  "exec denv c w h ev s =
     (case ev of
        ReaderStep \<Rightarrow> (case reader_step denv c w h s of None \<Rightarrow> s | Some s' \<Rightarrow> s')
      | MainSetsStop \<Rightarrow> s\<lparr>stop_event := True\<rparr>
      | ConsumerGets \<Rightarrow>
          (case queue_get (frame_queue s) of
             None \<Rightarrow> s
           | Some (f, q) \<Rightarrow> s\<lparr>frame_queue := q, got := got s @ [f]\<rparr>))"

fun run :: "renv \<Rightarrow> cmd \<Rightarrow> int \<Rightarrow> int \<Rightarrow> event list \<Rightarrow> reader \<Rightarrow> reader" where
  "run denv c w h [] s = s"
| "run denv c w h (ev # evs) s = run denv c w h evs (exec denv c w h ev s)"


section \<open>The acquisition controller: \<^verbatim>\<open>main\<close>\<close>

text \<open>The parsed command line.\<close>

record args =
  arg_url :: string
  no_preview :: bool
  force_cpu :: bool
  arg_width :: "int option"
  arg_height :: "int option"

text \<open>
  What \<^verbatim>\<open>main\<close> meets outside itself: the global \<^verbatim>\<open>GPU_AVAILABLE\<close>, Python's
  \<^verbatim>\<open>int\<close> on strings, the outcome of the \<open>k\<close>-th run of ffprobe, and whether the \<open>k\<close>-th
  \<^verbatim>\<open>reader_thread.join()\<close> returns (it waits for the reader thread, which may be held
  in \<^verbatim>\<open>put\<close> or in \<^verbatim>\<open>read\<close>).
\<close>

record env =
  gpu_available :: bool
  str_int :: "string \<Rightarrow> int option"
  probes :: "nat \<Rightarrow> exn + json"
  joins :: "nat \<Rightarrow> bool"

text \<open>
  What one pass of the consume loop (lines 161 to 180) meets: \<^verbatim>\<open>get\<close> times out
  (\<^verbatim>\<open>queue.Empty\<close>), \<^verbatim>\<open>get\<close> returns a frame (with the value of \<^verbatim>\<open>cv2.waitKey(1)\<close>,
  read only when there is a preview), a KeyboardInterrupt arrives, or another exception is
  raised (by \<^verbatim>\<open>cv2.imshow\<close>, say). The list is finite: when it is used up, the loop is
  still waiting in \<^verbatim>\<open>get\<close>.
\<close>

datatype consumer_event =
    GetEmpty
  | GetFrame frame int
  | CtrlC
  | Raises exn

text \<open>How the consume loop is left.\<close>

datatype loop_exit =
    QuitKey
  | LoopEnd
  | Interrupted
  | Raised exn
  | Waiting

text \<open>
  The loop of lines 161 to 180, entered with \<^verbatim>\<open>stop_event\<close> at \<open>stop\<close>: how it is left,
  what it did, and the events not yet met. The rate counter only prints.
\<close>

fun consume_loop ::
  "bool \<Rightarrow> bool \<Rightarrow> consumer_event list \<Rightarrow> loop_exit \<times> action list \<times> consumer_event list" where
  "consume_loop np stop [] = (if stop then (LoopEnd, [], []) else (Waiting, [], []))"
| "consume_loop np stop (ev # evs) =
     (if stop then (LoopEnd, [], ev # evs)
      else
        (case ev of
           GetEmpty \<Rightarrow> consume_loop np stop evs
         | CtrlC \<Rightarrow> (Interrupted, [], evs)
         | Raises x \<Rightarrow> (Raised x, [], evs)
         | GetFrame f key \<Rightarrow>
             if \<not> np then
               if key AND 255 = 113 then (QuitKey, [Imshow f, StopSet], evs)
               else
                 (case consume_loop np stop evs of
                    (ex, acts, rest) \<Rightarrow> (ex, Imshow f # acts, rest))
             else consume_loop np stop evs))"

text \<open>How a run of \<^verbatim>\<open>main\<close> stands at the end of the events.\<close>

datatype outcome =
    Finished
  | Propagated exn
  | JoinHangs
  | StillConsuming

record result =
  acts :: "action list"
  outcome :: outcome
  use_gpu_final :: bool
  tried_gpu_final :: bool
  stop_final :: bool

text \<open>
  The \<^verbatim>\<open>finally\<close> block (lines 186 to 189), in the \<open>k\<close>-th pass of the outer loop.
\<close>

definition finally_block :: "args \<Rightarrow> env \<Rightarrow> nat \<Rightarrow> action list" where
  "finally_block a e k =
     [StopSet, Join] @ (if joins e k \<and> \<not> no_preview a then [DestroyAllWindows] else [])"

text \<open>
  The outer loop (lines 151 to 197), at its \<open>k\<close>-th pass with the variables \<^verbatim>\<open>use_gpu\<close>,
  \<^verbatim>\<open>tried_gpu\<close> and the state \<open>stop\<close> of \<^verbatim>\<open>stop_event\<close>.
\<close>

function main_loop ::
  "args \<Rightarrow> env \<Rightarrow> nat \<Rightarrow> bool \<Rightarrow> bool \<Rightarrow> bool \<Rightarrow> consumer_event list \<Rightarrow> result" where
  "main_loop a e k use_gpu tried_gpu stop evs =
     (case build_ffmpeg_cmd (str_int e) (probes e k) (arg_url a) use_gpu (arg_width a) (arg_height a) of
        (c, w, h) \<Rightarrow>
          (case consume_loop (no_preview a) stop evs of
             (ex, consumed, rest) \<Rightarrow>
               let started = [Probe (probes e k), StartReader use_gpu c w h] @ consumed
               in
                 (case ex of
                    Waiting \<Rightarrow>
                      \<lparr>acts = started, outcome = StillConsuming, use_gpu_final = use_gpu,
                       tried_gpu_final = tried_gpu, stop_final = stop\<rparr>
                  | Interrupted \<Rightarrow>
                      \<lparr>acts = started @ [StopSet] @ finally_block a e k,
                       outcome = (if joins e k then Finished else JoinHangs),
                       use_gpu_final = use_gpu, tried_gpu_final = tried_gpu, stop_final = True\<rparr>
                  | Raised x \<Rightarrow>
                      \<lparr>acts = started @ finally_block a e k,
                       outcome = (if joins e k then Propagated x else JoinHangs),
                       use_gpu_final = use_gpu, tried_gpu_final = tried_gpu, stop_final = True\<rparr>
                  | _ \<Rightarrow>
                      if \<not> joins e k then
                        \<lparr>acts = started @ finally_block a e k, outcome = JoinHangs,
                         use_gpu_final = use_gpu, tried_gpu_final = tried_gpu, stop_final = True\<rparr>
                      else if use_gpu \<and> \<not> tried_gpu then
                        (let r = main_loop a e (Suc k) False True False rest
                         in r\<lparr>acts := started @ finally_block a e k @ [StopClear] @ acts r\<rparr>)
                      else
                        \<lparr>acts = started @ finally_block a e k, outcome = Finished,
                         use_gpu_final = use_gpu, tried_gpu_final = tried_gpu, stop_final = True\<rparr>)))"
  by pat_completeness auto
termination
  by (relation "measure (\<lambda>(a, e, k, use_gpu, tried_gpu, stop, evs). if use_gpu \<and> \<not> tried_gpu then 1 else 0)")
    auto

text \<open>Lines 146 to 149, and the loop.\<close>

definition main :: "args \<Rightarrow> env \<Rightarrow> consumer_event list \<Rightarrow> result" where
  "main a e evs = main_loop a e 0 (gpu_available e \<and> \<not> force_cpu a) False False evs"


section \<open>What the claims about the controller speak of\<close>

text \<open>The values of \<^verbatim>\<open>use_gpu\<close> with which the pipeline was started, in order.\<close>

fun modes :: "action list \<Rightarrow> bool list" where
  "modes [] = []"
| "modes (StartReader g c w h # xs) = g # modes xs"
| "modes (x # xs) = modes xs"


text \<open>The runs of ffprobe and the starts of the reader thread, in order.\<close>

fun setups :: "action list \<Rightarrow> action list" where
  "setups [] = []"
| "setups (Probe out # xs) = Probe out # setups xs"
| "setups (StartReader g c w h # xs) = StartReader g c w h # setups xs"
| "setups (x # xs) = setups xs"

text \<open>
  How the controller ends in its \<open>k\<close>-th pass once the consume loop is left by \<open>ex\<close> and no
  fallback follows.
\<close>

definition ends :: "env \<Rightarrow> nat \<Rightarrow> loop_exit \<Rightarrow> outcome" where
  "ends e k ex =
     (case ex of
        Waiting \<Rightarrow> StillConsuming
      | Raised x \<Rightarrow> if joins e k then Propagated x else JoinHangs
      | _ \<Rightarrow> if joins e k then Finished else JoinHangs)"

text \<open>What follows the consume loop in pass \<open>k\<close>, up to the test of line 191.\<close>

definition teardown :: "args \<Rightarrow> env \<Rightarrow> nat \<Rightarrow> loop_exit \<Rightarrow> action list" where
  "teardown a e k ex =
     (case ex of
        Waiting \<Rightarrow> []
      | Interrupted \<Rightarrow> [StopSet] @ finally_block a e k
      | _ \<Rightarrow> finally_block a e k)"

text \<open>The probe and the start of the reader thread in pass \<open>k\<close> with \<^verbatim>\<open>use_gpu\<close> at \<open>g\<close>.\<close>

definition pass_setup :: "args \<Rightarrow> env \<Rightarrow> nat \<Rightarrow> bool \<Rightarrow> action list" where
  "pass_setup a e k g =
     (case build_ffmpeg_cmd (str_int e) (probes e k) (arg_url a) g (arg_width a) (arg_height a) of
        (c, w, h) \<Rightarrow> [Probe (probes e k), StartReader g c w h])"

text \<open>What the reader thread may do with the command it was given.\<close>

fun reader_action :: "cmd \<Rightarrow> action \<Rightarrow> bool" where
  "reader_action c (Popen c') = (c' = c)"
| "reader_action c (Kill p) = True"
| "reader_action c (Sleep n) = True"
| "reader_action c (QueuePut f) = True"
| "reader_action c x = False"

text \<open>The frames put into the queue, in order.\<close>

fun puts :: "action list \<Rightarrow> frame list" where
  "puts [] = []"
| "puts (QueuePut f # xs) = f # puts xs"
| "puts (x # xs) = puts xs"

text \<open>A command line with a preview, a machine with a GPU, a probe that fails, joins that return.\<close>

definition ex_args :: args where
  "ex_args = \<lparr>arg_url = ''u'', no_preview = False, force_cpu = False,
              arg_width = None, arg_height = None\<rparr>"

definition ex_env :: env where
  "ex_env = \<lparr>gpu_available = True, str_int = (\<lambda>s. None),
             probes = (\<lambda>k. Inl CalledProcessError), joins = (\<lambda>k. True)\<rparr>"

text \<open>
  An environment whose decode process writes the three bytes of one frame of 1 by 1 and
  closes its output, whenever it is started, with room for reads of 100 MB; and a command
  to start the process with.
\<close>

definition ex_launch :: renv where
  "ex_launch = \<lparr>launch_at = (\<lambda>i. Started [1, 2, 3] EOF), read_max = 100000000\<rparr>"

definition ex_cmd :: cmd where
  "ex_cmd = [Lit ''ffmpeg'', Lit ''-'']"

text \<open>The invariants of the reader: only frames of the frame size are put, and in order.\<close>

definition frames_exact :: "int \<Rightarrow> int \<Rightarrow> reader \<Rightarrow> bool" where
  "frames_exact w h s \<longleftrightarrow>
     (\<forall>f \<in> set (puts (trace s)). int (length f) = w * h * 3) \<and>
     (case pc s of Putting f \<Rightarrow> int (length f) = w * h * 3 | _ \<Rightarrow> True)"

definition fifo_inv :: "frame list \<Rightarrow> reader \<Rightarrow> bool" where
  "fifo_inv q s \<longleftrightarrow> got s @ frame_queue s = q @ puts (trace s)"

text \<open>
  The invariant of a supervisor that meets no exception while streaming: at the head of
  its loop and after its return no process is live, and within a session the only live
  process is the current one.
\<close>

definition no_leak :: "reader \<Rightarrow> bool" where
  "no_leak s \<longleftrightarrow>
     (case pc s of
        OuterHead \<Rightarrow> live s = []
      | Returned \<Rightarrow> live s = []
      | _ \<Rightarrow> (\<exists>p. proc s = Some p \<and> live s = [p]) \<and> ending s = EOF)"

section \<open>The prober: failures and selection\<close>

lemma select_step_obj:
  "select_step si (JObj d) b =
     Inr (case area si d of
            None \<Rightarrow> b
          | Some a \<Rightarrow> if a > best_area b then picked d a else b)"
  by (auto simp: select_step_def try_area_def area_def fld_def picked_def split: sum.splits option.splits)

lemma select_loop_snoc:
  "select_loop si (xs @ [x]) b =
     (case select_loop si xs b of Inl e \<Rightarrow> Inl e | Inr b' \<Rightarrow> select_step si x b')"
  by (induction xs arbitrary: b) (auto split: sum.splits)

lemma largest_first_less: "largest_first si ds i \<Longrightarrow> i < length ds"
  by (simp add: largest_first_def)

lemma largest_first_keep:
  assumes "largest_first si ds i" "area si (ds ! i) = Some a"
    and "case area si x of None \<Rightarrow> True | Some c \<Rightarrow> c \<le> a"
  shows "largest_first si (ds @ [x]) i"
  using assms
  by (auto simp: largest_first_def nth_append less_Suc_eq split: option.splits)

lemma largest_first_new:
  assumes "area si x = Some c" "0 < c"
    and "\<forall>j < length ds. case area si (ds ! j) of None \<Rightarrow> True | Some b \<Rightarrow> b < c"
  shows "largest_first si (ds @ [x]) (length ds)"
  using assms
  by (auto simp: largest_first_def nth_append less_Suc_eq split: option.splits)

lemma largest_first_unique:
  assumes "largest_first si ds i" "largest_first si ds k"
  shows "i = k"
proof (rule ccontr)
  assume ne: "i \<noteq> k"
  have "\<not> (i < k)" using assms by (fastforce simp: largest_first_def split: option.splits)
  moreover have "\<not> (k < i)" using assms by (fastforce simp: largest_first_def split: option.splits)
  ultimately show False using ne by simp
qed

lemma sel_inv_snoc:
  assumes inv: "sel_inv si ds b"
  shows "sel_inv si (ds @ [x])
           (case area si x of None \<Rightarrow> b | Some a \<Rightarrow> if a > best_area b then picked x a else b)"
proof (cases "b = best_init \<and> (\<forall>d \<in> set ds. case area si d of None \<Rightarrow> True | Some a \<Rightarrow> a \<le> 0)")
  case True
  then have b: "b = best_init"
    and low: "\<forall>d \<in> set ds. case area si d of None \<Rightarrow> True | Some a \<Rightarrow> a \<le> 0" by simp_all
  show ?thesis
  proof (cases "area si x")
    case None
    with b low show ?thesis by (simp add: sel_inv_def)
  next
    case (Some c)
    show ?thesis
    proof (cases "0 < c")
      case False
      with Some b low show ?thesis by (simp add: sel_inv_def best_init_def)
    next
      case pos: True
      have "\<forall>j < length ds. case area si (ds ! j) of None \<Rightarrow> True | Some b \<Rightarrow> b < c"
        using low pos by (fastforce split: option.splits)
      then have "largest_first si (ds @ [x]) (length ds)"
        using Some pos by (rule largest_first_new[rotated 2])
      then show ?thesis
        using Some pos b by (auto simp: sel_inv_def best_init_def)
    qed
  qed
next
  case False
  with inv obtain i a where lf: "largest_first si ds i" and ar: "area si (ds ! i) = Some a"
    and b: "b = picked (ds ! i) a"
    by (auto simp: sel_inv_def)
  have i: "i < length ds" using lf by (rule largest_first_less)
  have nth: "(ds @ [x]) ! i = ds ! i" using i by (simp add: nth_append)
  show ?thesis
  proof (cases "area si x")
    case None
    then have "largest_first si (ds @ [x]) i"
      using largest_first_keep[OF lf ar, of x] by simp
    with None ar b nth show ?thesis by (auto simp: sel_inv_def)
  next
    case (Some c)
    show ?thesis
    proof (cases "a < c")
      case False
      then have "largest_first si (ds @ [x]) i"
        using largest_first_keep[OF lf ar, of x] Some by simp
      with False Some ar b nth show ?thesis by (auto simp: sel_inv_def picked_def)
    next
      case big: True
      have apos: "0 < a" using lf ar by (simp add: largest_first_def)
      have "\<forall>j < length ds. case area si (ds ! j) of None \<Rightarrow> True | Some b \<Rightarrow> b < c"
        using lf ar big by (fastforce simp: largest_first_def split: option.splits)
      then have "largest_first si (ds @ [x]) (length ds)"
        using Some apos big largest_first_new[of si x c ds] by simp
      then show ?thesis
        using Some big b by (auto simp: sel_inv_def picked_def)
    qed
  qed
qed

lemma select_loop_inv:
  "\<exists>b. select_loop si (map JObj ds) best_init = Inr b \<and> sel_inv si ds b"
proof (induction ds rule: rev_induct)
  case Nil
  show ?case by (simp add: sel_inv_def)
next
  case (snoc x ds)
  then obtain b where run: "select_loop si (map JObj ds) best_init = Inr b"
    and inv: "sel_inv si ds b" by blast
  have "select_loop si (map JObj (ds @ [x])) best_init =
          Inr (case area si x of None \<Rightarrow> b | Some a \<Rightarrow> if a > best_area b then picked x a else b)"
    by (simp add: select_loop_snoc run select_step_obj)
  with sel_inv_snoc[OF inv, of x] show ?case by blast
qed

lemma sel_inv_low:
  assumes "sel_inv si ds b" "\<forall>d \<in> set ds. \<not> positive_area si d"
  shows "b = best_init"
  using assms
  by (fastforce simp: sel_inv_def positive_area_def largest_first_def split: option.splits)

lemma sel_inv_high:
  assumes "sel_inv si ds b" "d \<in> set ds" "positive_area si d"
  shows "\<exists>i a. largest_first si ds i \<and> area si (ds ! i) = Some a \<and> b = picked (ds ! i) a"
  using assms
  by (fastforce simp: sel_inv_def positive_area_def split: option.splits)

lemma select_loop_no_video:
  assumes "list_all (\<lambda>s. dict_get s ''codec_type'' JNull \<noteq> Inr (JStr ''video'')) streams"
  shows "select_loop si streams b = Inr b \<or> (\<exists>e. select_loop si streams b = Inl e)"
  using assms
  by (induction streams) (auto simp: select_step_def split: sum.splits)

lemma probe_objs:
  assumes "map_of info ''streams'' = Some (JArr (map JObj ds))"
    and "select_loop si (map JObj ds) best_init = Inr b"
  shows "get_highest_res_stream_index si (Inr (JObj info)) =
           (if best_idx b \<noteq> JNull then (best_idx b, best_w b, best_h b) else default_descriptor)"
  using assms by (simp add: get_highest_res_stream_index_def probe_body_def)

lemma ex_largest: "largest_first (\<lambda>s. None) ex_streams 1"
  by (simp add: largest_first_def ex_streams_def area_def fld_def All_less_Suc)

text \<open>
  Claim C9. When probing fails, the prober returns the default descriptor (0, 640, 360) and
  does not raise: when the tool, the decoding or the parsing raised (\<open>out\<close> is an exception),
  when anything in the body of the \<^verbatim>\<open>try\<close> raises, and when no element of the stream
  list is a video stream.
\<close>

theorem probe_failure_returns_default:
  "get_highest_res_stream_index si (Inl e) = default_descriptor \<and>
   (probe_body si out = Inl e \<longrightarrow> get_highest_res_stream_index si out = default_descriptor) \<and>
   (no_video_track info \<longrightarrow> get_highest_res_stream_index si (Inr info) = default_descriptor)"
proof (intro conjI impI)
  show "get_highest_res_stream_index si (Inl e) = default_descriptor"
    by (simp add: get_highest_res_stream_index_def probe_body_def)
  show "get_highest_res_stream_index si out = default_descriptor" if "probe_body si out = Inl e"
    using that by (simp add: get_highest_res_stream_index_def)
  show "get_highest_res_stream_index si (Inr info) = default_descriptor" if nv: "no_video_track info"
  proof (cases "dict_get info ''streams'' (JArr [])")
    case (Inl x)
    then show ?thesis by (simp add: get_highest_res_stream_index_def probe_body_def)
  next
    case ss: (Inr ss)
    show ?thesis
    proof (cases "py_iter ss")
      case (Inl x)
      with ss show ?thesis by (simp add: get_highest_res_stream_index_def probe_body_def)
    next
      case (Inr streams)
      with nv ss have "list_all (\<lambda>s. dict_get s ''codec_type'' JNull \<noteq> Inr (JStr ''video'')) streams"
        by (simp add: no_video_track_def)
      from select_loop_no_video[OF this, of si best_init] ss Inr show ?thesis
        by (auto simp: get_highest_res_stream_index_def probe_body_def best_init_def)
    qed
  qed
qed

theorem probe_failure_returns_default_witness:
  "get_highest_res_stream_index (\<lambda>s. None) (Inl CalledProcessError) = default_descriptor \<and>
   probe_body (\<lambda>s. None) (Inr (JArr [])) = Inl AttributeError \<and>
   get_highest_res_stream_index (\<lambda>s. None) (Inr (JArr [])) = default_descriptor \<and>
   no_video_track (JObj [(''streams'', JArr [JObj [(''index'', JInt 0), (''codec_type'', JStr ''audio'')]])]) \<and>
   get_highest_res_stream_index (\<lambda>s. None)
     (Inr (JObj [(''streams'', JArr [JObj [(''index'', JInt 0), (''codec_type'', JStr ''audio'')]])]))
     = default_descriptor"
proof -
  have a: "probe_body (\<lambda>s. None) (Inr (JArr [])) = Inl AttributeError"
    by (simp add: probe_body_def)
  have b: "no_video_track (JObj [(''streams'', JArr [JObj [(''index'', JInt 0), (''codec_type'', JStr ''audio'')]])])"
    by (simp add: no_video_track_def)
  show ?thesis
    using a b
      probe_failure_returns_default[of "\<lambda>s. None" CalledProcessError]
      probe_failure_returns_default[of "\<lambda>s. None" AttributeError "Inr (JArr [])"
        "JObj [(''streams'', JArr [JObj [(''index'', JInt 0), (''codec_type'', JStr ''audio'')]])]"]
    by blast
qed

text \<open>
  Claim C10, as the code has it. For a probe result whose \<^verbatim>\<open>streams\<close> entry is a list of
  objects: when a video stream has a positive area, there is a stream whose area is the
  largest and larger than that of every earlier stream, and the prober returns the index,
  width and height of that stream if it carries an index, and the default (0, 640, 360)
  if its index is missing or null; when no video stream has a positive area, the prober
  returns the default.
\<close>

theorem prober_selects_largest:
  assumes streams: "map_of info ''streams'' = Some (JArr (map JObj ds))"
  shows "((\<exists>d \<in> set ds. positive_area si d) \<longrightarrow> (\<exists>i. largest_first si ds i)) \<and>
         (largest_first si ds i \<longrightarrow>
            get_highest_res_stream_index si (Inr (JObj info)) = descriptor_of (ds ! i)) \<and>
         ((\<forall>d \<in> set ds. \<not> positive_area si d) \<longrightarrow>
            get_highest_res_stream_index si (Inr (JObj info)) = default_descriptor)"
proof -
  obtain b where run: "select_loop si (map JObj ds) best_init = Inr b" and inv: "sel_inv si ds b"
    using select_loop_inv by blast
  note res = probe_objs[OF streams run]
  have 1: "\<exists>i. largest_first si ds i" if "\<exists>d \<in> set ds. positive_area si d"
    using that sel_inv_high[OF inv] by blast
  have 2: "get_highest_res_stream_index si (Inr (JObj info)) = descriptor_of (ds ! i)"
    if lf: "largest_first si ds i"
  proof -
    have "i < length ds" using lf by (rule largest_first_less)
    then have "ds ! i \<in> set ds" by simp
    moreover have "positive_area si (ds ! i)"
      using lf by (auto simp: largest_first_def positive_area_def split: option.splits)
    ultimately obtain k a where k: "largest_first si ds k" and b: "b = picked (ds ! k) a"
      using sel_inv_high[OF inv] by blast
    have "k = i" using k lf by (rule largest_first_unique)
    with b res show ?thesis by (simp add: picked_def descriptor_of_def)
  qed
  have 3: "get_highest_res_stream_index si (Inr (JObj info)) = default_descriptor"
    if "\<forall>d \<in> set ds. \<not> positive_area si d"
    using sel_inv_low[OF inv that] res by (simp add: best_init_def)
  from 1 2 3 show ?thesis by blast
qed

theorem prober_selects_largest_witness:
  "largest_first (\<lambda>s. None) ex_streams 1 \<and>
   get_highest_res_stream_index (\<lambda>s. None) (Inr (JObj [(''streams'', JArr (map JObj ex_streams))]))
     = (JInt 1, JInt 1920, JInt 1080) \<and>
   get_highest_res_stream_index (\<lambda>s. None)
     (Inr (JObj [(''streams'', JArr (map JObj [[(''index'', JInt 3), (''codec_type'', JStr ''video'')]]))]))
     = default_descriptor"
proof -
  have h: "map_of [(''streams'', JArr (map JObj ds))] ''streams'' = Some (JArr (map JObj ds))" for ds
    by simp
  have z: "\<forall>d \<in> set [[(''index'', JInt 3), (''codec_type'', JStr ''video'')]]. \<not> positive_area (\<lambda>s. None) d"
    by (simp add: positive_area_def area_def fld_def)
  have d: "descriptor_of (ex_streams ! 1) = (JInt 1, JInt 1920, JInt 1080)"
    by (simp add: descriptor_of_def ex_streams_def fld_def)
  show ?thesis
    using prober_selects_largest[OF h, of ex_streams "\<lambda>s. None" 1]
      prober_selects_largest[OF h, of "[[(''index'', JInt 3), (''codec_type'', JStr ''video'')]]" "\<lambda>s. None" 0]
      ex_largest z d
    by simp
qed

text \<open>
  Claim C10 as stated fails where the stream of largest area has no index: the first of
  these two video streams is the largest, and the prober returns the default descriptor.
\<close>

theorem prober_largest_counterexample:
  "largest_first (\<lambda>s. None)
     [[(''codec_type'', JStr ''video''), (''width'', JInt 1920), (''height'', JInt 1080)],
      [(''index'', JInt 1), (''codec_type'', JStr ''video''), (''width'', JInt 640), (''height'', JInt 480)]] 0 \<and>
   get_highest_res_stream_index (\<lambda>s. None)
     (Inr (JObj [(''streams'', JArr
        [JObj [(''codec_type'', JStr ''video''), (''width'', JInt 1920), (''height'', JInt 1080)],
         JObj [(''index'', JInt 1), (''codec_type'', JStr ''video''), (''width'', JInt 640), (''height'', JInt 480)]])]))
     = (JInt 0, JInt 640, JInt 360)"
  by (simp add: largest_first_def area_def fld_def get_highest_res_stream_index_def probe_body_def
      select_step_def try_area_def best_init_def default_descriptor_def All_less_Suc)

section \<open>The controller: fallback, shutdown signal, descriptor\<close>

declare main_loop.simps [simp del]

lemma consume_loop_stop: "consume_loop np True evs = (LoopEnd, [], evs)"
  by (cases evs) simp_all

lemma consume_loop_not_end: "fst (consume_loop np False evs) \<noteq> LoopEnd"
  by (induction evs) (auto split: consumer_event.splits prod.splits)

lemma consume_loop_modes: "modes (fst (snd (consume_loop np False evs))) = []"
  by (induction evs) (auto split: consumer_event.splits prod.splits)

lemma consume_loop_setups: "setups (fst (snd (consume_loop np False evs))) = []"
  by (induction evs) (auto split: consumer_event.splits prod.splits)


lemma main_loop_last:
  assumes "\<not> (g \<and> \<not> t)" and "consume_loop (no_preview a) stop evs = (ex, consumed, rest)"
  shows "main_loop a e k g t stop evs =
           \<lparr>acts = pass_setup a e k g @ consumed @ teardown a e k ex, outcome = ends e k ex,
            use_gpu_final = g, tried_gpu_final = t, stop_final = (if ex = Waiting then stop else True)\<rparr>"
  using assms
  by (cases ex)
     (auto simp: main_loop.simps[of a e k g t stop evs] pass_setup_def teardown_def ends_def Let_def
           split: prod.splits)

lemma main_loop_stay:
  assumes "consume_loop (no_preview a) stop evs = (ex, consumed, rest)"
    and "ex = Waiting \<or> ex = Interrupted \<or> (\<exists>x. ex = Raised x) \<or> \<not> joins e k"
  shows "main_loop a e k g t stop evs =
           \<lparr>acts = pass_setup a e k g @ consumed @ teardown a e k ex, outcome = ends e k ex,
            use_gpu_final = g, tried_gpu_final = t, stop_final = (if ex = Waiting then stop else True)\<rparr>"
  using assms
  by (cases ex)
     (auto simp: main_loop.simps[of a e k g t stop evs] pass_setup_def teardown_def ends_def Let_def
           split: prod.splits)

lemma main_loop_fallback:
  assumes "consume_loop (no_preview a) stop evs = (ex, consumed, rest)"
    and "ex = QuitKey \<or> ex = LoopEnd" and "joins e k"
  shows "main_loop a e k True False stop evs =
           (let r = main_loop a e (Suc k) False True False rest
            in r\<lparr>acts := pass_setup a e k True @ consumed @ teardown a e k ex @ [StopClear] @ acts r\<rparr>)"
  using assms
  by (cases ex)
     (auto simp: main_loop.simps[of a e k True False stop evs] pass_setup_def teardown_def Let_def
           split: prod.splits)

lemma modes_append: "modes (xs @ ys) = modes xs @ modes ys"
  by (induction xs rule: modes.induct) simp_all

lemma setups_append: "setups (xs @ ys) = setups xs @ setups ys"
  by (induction xs rule: setups.induct) simp_all


lemma modes_pass_setup: "modes (pass_setup a e k g) = [g]"
  by (simp add: pass_setup_def split: prod.splits)

lemma setups_pass_setup: "setups (pass_setup a e k g) = pass_setup a e k g"
  by (simp add: pass_setup_def split: prod.splits)


lemma modes_teardown: "modes (teardown a e k ex) = []"
  by (cases ex) (simp_all add: teardown_def finally_block_def)

lemma setups_teardown: "setups (teardown a e k ex) = []"
  by (cases ex) (simp_all add: teardown_def finally_block_def)


lemma ends_quit: "ends e k QuitKey = (if joins e k then Finished else JoinHangs)"
  by (simp add: ends_def)

lemma main_two_passes:
  assumes c1: "consume_loop (no_preview a) False evs = (ex1, acts1, rest1)"
    and c2: "consume_loop (no_preview a) False rest1 = (ex2, acts2, rest2)"
  shows "main a e evs =
     (if (gpu_available e \<and> \<not> force_cpu a) \<and> ex1 = QuitKey \<and> joins e 0
      then \<lparr>acts = pass_setup a e 0 True @ acts1 @ teardown a e 0 ex1 @ [StopClear] @
                   pass_setup a e 1 False @ acts2 @ teardown a e 1 ex2,
            outcome = ends e 1 ex2, use_gpu_final = False, tried_gpu_final = True,
            stop_final = (if ex2 = Waiting then False else True)\<rparr>
      else \<lparr>acts = pass_setup a e 0 (gpu_available e \<and> \<not> force_cpu a) @ acts1 @ teardown a e 0 ex1,
            outcome = ends e 0 ex1, use_gpu_final = (gpu_available e \<and> \<not> force_cpu a),
            tried_gpu_final = False, stop_final = (if ex1 = Waiting then False else True)\<rparr>)"
proof -
  define g0 where "g0 = (gpu_available e \<and> \<not> force_cpu a)"
  have ne: "ex1 \<noteq> LoopEnd" using consume_loop_not_end[of "no_preview a" evs] c1 by simp
  show ?thesis
  proof (cases "g0 \<and> ex1 = QuitKey \<and> joins e 0")
    case True
    then have g: "g0" and q: "ex1 = QuitKey" and j: "joins e 0" by simp_all
    have "main a e evs =
            (let r = main_loop a e (Suc 0) False True False rest1
             in r\<lparr>acts := pass_setup a e 0 True @ acts1 @ teardown a e 0 ex1 @ [StopClear] @ acts r\<rparr>)"
      using main_loop_fallback[OF c1 _ j] q g by (simp add: main_def g0_def)
    moreover have "main_loop a e (Suc 0) False True False rest1 =
            \<lparr>acts = pass_setup a e (Suc 0) False @ acts2 @ teardown a e (Suc 0) ex2,
             outcome = ends e (Suc 0) ex2, use_gpu_final = False, tried_gpu_final = True,
             stop_final = (if ex2 = Waiting then False else True)\<rparr>"
      by (rule main_loop_last[OF _ c2]) simp
    ultimately show ?thesis
      using True by (simp add: g0_def Let_def)
  next
    case False
    have "main a e evs =
            \<lparr>acts = pass_setup a e 0 g0 @ acts1 @ teardown a e 0 ex1, outcome = ends e 0 ex1,
             use_gpu_final = g0, tried_gpu_final = False,
             stop_final = (if ex1 = Waiting then False else True)\<rparr>"
    proof (cases g0)
      case g: True
      with False ne have "ex1 = Waiting \<or> ex1 = Interrupted \<or> (\<exists>x. ex1 = Raised x) \<or> \<not> joins e 0"
        by (cases ex1) auto
      from main_loop_stay[OF c1 this] show ?thesis by (simp add: main_def g0_def)
    next
      case ng: False
      then have "\<not> (g0 \<and> \<not> False)" by simp
      from main_loop_last[OF this c1] show ?thesis by (simp add: main_def g0_def)
    qed
    then show ?thesis
      using False by (simp add: g0_def)
  qed
qed

text \<open>
  Claim C1, as the code has it. With \<open>g0\<close> the mode at the start (hardware when a GPU is there
  and not forced off): the controller falls back exactly when it started in hardware
  mode, the first consume loop was left by the quit key, and the join returned; it then
  starts the pipeline a second time in software mode with \<^verbatim>\<open>tried_gpu\<close> set, and however
  the second consume loop is left, the controller ends there. In every other case
  (software mode at the start, or the first loop left by an interrupt or another
  exception) the pipeline is started once, the mode stays what it was and the controller
  ends with the first pass. The pipeline is never started in hardware mode after software
  mode.
\<close>

theorem fallback_at_most_once:
  "(case consume_loop (no_preview a) False evs of
      (ex1, acts1, rest1) \<Rightarrow>
        let g0 = gpu_available e \<and> \<not> force_cpu a;
            ex2 = fst (consume_loop (no_preview a) False rest1);
            r = main a e evs
        in if g0 \<and> ex1 = QuitKey \<and> joins e 0
           then modes (acts r) = [True, False] \<and> use_gpu_final r = False \<and>
                tried_gpu_final r = True \<and> outcome r = ends e 1 ex2
           else modes (acts r) = [g0] \<and> use_gpu_final r = g0 \<and>
                tried_gpu_final r = False \<and> outcome r = ends e 0 ex1)"
proof -
  obtain ex1 acts1 rest1 where c1: "consume_loop (no_preview a) False evs = (ex1, acts1, rest1)"
    by (cases "consume_loop (no_preview a) False evs") auto
  obtain ex2 acts2 rest2 where c2: "consume_loop (no_preview a) False rest1 = (ex2, acts2, rest2)"
    by (cases "consume_loop (no_preview a) False rest1") auto
  have m1: "modes acts1 = []" using consume_loop_modes[of "no_preview a" evs] c1 by simp
  have m2: "modes acts2 = []" using consume_loop_modes[of "no_preview a" rest1] c2 by simp
  show ?thesis
    using main_two_passes[OF c1 c2, of e] c1 c2 m1 m2
    by (simp add: Let_def modes_append modes_pass_setup modes_teardown)
qed

theorem fallback_at_most_once_witness:
  "modes (acts (main ex_args ex_env [GetFrame [] 113, CtrlC])) = [True, False] \<and>
   use_gpu_final (main ex_args ex_env [GetFrame [] 113, CtrlC]) = False \<and>
   tried_gpu_final (main ex_args ex_env [GetFrame [] 113, CtrlC]) = True \<and>
   outcome (main ex_args ex_env [GetFrame [] 113, CtrlC]) = Finished \<and>
   modes (acts (main ex_args (ex_env\<lparr>gpu_available := False\<rparr>) [GetFrame [] 113, CtrlC])) = [False] \<and>
   outcome (main ex_args (ex_env\<lparr>gpu_available := False\<rparr>) [GetFrame [] 113, CtrlC]) = Finished"
  using fallback_at_most_once[where a = ex_args and evs = "[GetFrame [] 113, CtrlC]" and e = ex_env]
    fallback_at_most_once[where a = ex_args and evs = "[GetFrame [] 113, CtrlC]"
      and e = "ex_env\<lparr>gpu_available := False\<rparr>"]
  by (simp add: ex_args_def ex_env_def ends_def Let_def)

text \<open>
  Claim C1 as stated fails on an interrupt: the consume loop is left in hardware mode with
  the fallback untried, and the controller ends without a fallback.
\<close>

theorem fallback_counterexample:
  "fst (consume_loop (no_preview ex_args) False [CtrlC]) = Interrupted \<and>
   gpu_available ex_env \<and> \<not> force_cpu ex_args \<and>
   modes (acts (main ex_args ex_env [CtrlC])) = [True] \<and>
   use_gpu_final (main ex_args ex_env [CtrlC]) = True \<and>
   tried_gpu_final (main ex_args ex_env [CtrlC]) = False \<and>
   outcome (main ex_args ex_env [CtrlC]) = Finished"
  by (simp add: main_def main_loop.simps ex_args_def ex_env_def build_ffmpeg_cmd_def
      get_highest_res_stream_index_def probe_body_def default_descriptor_def override_def
      finally_block_def)






section \<open>Interrupt and quit\<close>

lemma consume_loop_waiting_rest:
  "fst (consume_loop np False p) = Waiting \<Longrightarrow> snd (snd (consume_loop np False p)) = []"
  by (induction p) (auto split: consumer_event.splits prod.splits if_splits)

lemma consume_loop_append:
  "fst (consume_loop np False p) = Waiting \<Longrightarrow>
   consume_loop np False (p @ evs) =
     (case consume_loop np False evs of
        (ex, done, rest) \<Rightarrow> (ex, fst (snd (consume_loop np False p)) @ done, rest))"
  by (induction p) (auto split: consumer_event.splits prod.splits if_splits)

text \<open>
  Claim C7, as the code has it. Take a consume loop that is still running after the events
  \<open>p\<close>, with a preview. An interrupt and the quit key then both set the event, run the
  \<^verbatim>\<open>finally\<close> block (set the event, join the reader thread, destroy the windows), and
  in software mode, or when the join does not return, they end the controller in the same
  way. In hardware mode with a join that returns they part: the interrupt ends the
  controller without a fallback, the quit key is followed by the fallback (the event is
  cleared and the pass \<open>r2\<close> in software mode follows).
\<close>

theorem interrupt_and_quit_paths:
  assumes running: "fst (consume_loop (no_preview a) False p) = Waiting"
    and preview: "\<not> no_preview a"
    and q: "key AND 255 = 113"
  shows
    "(let g0 = gpu_available e \<and> \<not> force_cpu a;
          before = pass_setup a e 0 g0 @ fst (snd (consume_loop (no_preview a) False p));
          ri = main a e (p @ CtrlC # rest);
          rq = main a e (p @ GetFrame f key # rest);
          r2 = main_loop a e 1 False True False rest
      in acts ri = before @ [StopSet] @ finally_block a e 0 \<and>
         outcome ri = (if joins e 0 then Finished else JoinHangs) \<and>
         use_gpu_final ri = g0 \<and> tried_gpu_final ri = False \<and> stop_final ri = True \<and>
         (if g0 \<and> joins e 0
          then rq = r2\<lparr>acts := before @ [Imshow f, StopSet] @ finally_block a e 0 @ [StopClear] @ acts r2\<rparr>
          else acts rq = before @ [Imshow f, StopSet] @ finally_block a e 0 \<and>
               outcome rq = outcome ri \<and> use_gpu_final rq = use_gpu_final ri \<and>
               tried_gpu_final rq = tried_gpu_final ri \<and> stop_final rq = stop_final ri))"
proof -
  define g0 where "g0 = (gpu_available e \<and> \<not> force_cpu a)"
  define pa where "pa = fst (snd (consume_loop (no_preview a) False p))"
  have ci: "consume_loop (no_preview a) False (p @ CtrlC # rest) = (Interrupted, pa, rest)"
    using consume_loop_append[OF running, of "CtrlC # rest"] by (simp add: pa_def)
  have cq: "consume_loop (no_preview a) False (p @ GetFrame f key # rest) =
              (QuitKey, pa @ [Imshow f, StopSet], rest)"
    using consume_loop_append[OF running, of "GetFrame f key # rest"] preview q
    by (simp add: pa_def)
  have ri: "main a e (p @ CtrlC # rest) =
              \<lparr>acts = pass_setup a e 0 g0 @ pa @ teardown a e 0 Interrupted,
               outcome = ends e 0 Interrupted, use_gpu_final = g0, tried_gpu_final = False,
               stop_final = True\<rparr>"
    using main_loop_stay[OF ci, of e 0 g0 False] by (simp add: main_def g0_def)
  show ?thesis
  proof (cases "g0 \<and> joins e 0")
    case True
    then have "main a e (p @ GetFrame f key # rest) =
            (let r = main_loop a e (Suc 0) False True False rest
             in r\<lparr>acts := pass_setup a e 0 True @ (pa @ [Imshow f, StopSet]) @
                           teardown a e 0 QuitKey @ [StopClear] @ acts r\<rparr>)"
      using main_loop_fallback[OF cq, of e 0] by (simp add: main_def g0_def)
    with True ri show ?thesis
      by (simp add: Let_def g0_def[symmetric] pa_def[symmetric] teardown_def ends_def)
  next
    case False
    have "main a e (p @ GetFrame f key # rest) =
              \<lparr>acts = pass_setup a e 0 g0 @ (pa @ [Imshow f, StopSet]) @ teardown a e 0 QuitKey,
               outcome = ends e 0 QuitKey, use_gpu_final = g0, tried_gpu_final = False,
               stop_final = True\<rparr>"
    proof (cases g0)
      case True
      with False have "\<not> joins e 0" by simp
      then show ?thesis
        using main_loop_stay[OF cq, of e 0 g0 False] by (simp add: main_def g0_def)
    next
      case ng: False
      then have "\<not> (g0 \<and> \<not> False)" by simp
      from main_loop_last[OF this cq] show ?thesis by (simp add: main_def g0_def)
    qed
    with False ri show ?thesis
      by (auto simp: Let_def g0_def[symmetric] pa_def[symmetric] teardown_def ends_def)
  qed
qed


theorem interrupt_and_quit_paths_witness:
  "fst (consume_loop (no_preview ex_args) False [GetEmpty]) = Waiting \<and>
   (113 :: int) AND 255 = 113 \<and>
   acts (main ex_args (ex_env\<lparr>gpu_available := False\<rparr>) ([GetEmpty] @ CtrlC # [])) =
     pass_setup ex_args (ex_env\<lparr>gpu_available := False\<rparr>) 0 False @ [StopSet, StopSet, Join, DestroyAllWindows] \<and>
   acts (main ex_args (ex_env\<lparr>gpu_available := False\<rparr>) ([GetEmpty] @ GetFrame [] 113 # [])) =
     pass_setup ex_args (ex_env\<lparr>gpu_available := False\<rparr>) 0 False @
       [Imshow [], StopSet, StopSet, Join, DestroyAllWindows] \<and>
   outcome (main ex_args (ex_env\<lparr>gpu_available := False\<rparr>) ([GetEmpty] @ GetFrame [] 113 # [])) = Finished \<and>
   outcome (main ex_args ex_env ([GetEmpty] @ CtrlC # [CtrlC])) = Finished \<and>
   use_gpu_final (main ex_args ex_env ([GetEmpty] @ CtrlC # [CtrlC])) = True \<and>
   use_gpu_final (main ex_args ex_env ([GetEmpty] @ GetFrame [] 113 # [CtrlC])) = False"
proof -
  have w: "fst (consume_loop (no_preview ex_args) False [GetEmpty]) = Waiting" by simp
  have p: "\<not> no_preview ex_args" by (simp add: ex_args_def)
  have k: "(113 :: int) AND 255 = 113" by simp
  show ?thesis
    using w k
      interrupt_and_quit_paths[OF w p k, where e = "ex_env\<lparr>gpu_available := False\<rparr>"
        and rest = "[]" and f = "[]"]
      interrupt_and_quit_paths[OF w p k, where e = ex_env and rest = "[CtrlC]" and f = "[]"]
    by (simp add: Let_def ex_args_def ex_env_def finally_block_def main_loop.simps
          build_ffmpeg_cmd_def get_highest_res_stream_index_def probe_body_def
          default_descriptor_def override_def)
qed

text \<open>
  Claim C7 as stated fails in hardware mode: after an interrupt the controller has ended in
  hardware mode with one start of the pipeline, after the quit key it has fallen back and
  started the pipeline a second time.
\<close>

theorem interrupt_and_quit_counterexample:
  "outcome (main ex_args ex_env [CtrlC, CtrlC]) = Finished \<and>
   modes (acts (main ex_args ex_env [CtrlC, CtrlC])) = [True] \<and>
   use_gpu_final (main ex_args ex_env [CtrlC, CtrlC]) = True \<and>
   outcome (main ex_args ex_env [GetFrame [] 113, CtrlC]) = Finished \<and>
   modes (acts (main ex_args ex_env [GetFrame [] 113, CtrlC])) = [True, False] \<and>
   use_gpu_final (main ex_args ex_env [GetFrame [] 113, CtrlC]) = False"
  by (simp add: main_def main_loop.simps ex_args_def ex_env_def build_ffmpeg_cmd_def
      get_highest_res_stream_index_def probe_body_def default_descriptor_def override_def
      finally_block_def)

section \<open>The reader thread and the queue\<close>

lemmas reader_eval =
  exec_def reader_step_def reader_init_def kill_proc_def handle_exception_def pipe_read_def
  reshape_ok_def queue_put_def queue_get_def maxsize_def ex_launch_def ex_cmd_def sys_maxsize_def

lemma puts_append: "puts (xs @ ys) = puts xs @ puts ys"
  by (induction xs rule: puts.induct) simp_all

lemma reader_step_trace:
  assumes "reader_step denv c w h s = Some s'" "list_all (reader_action c) (trace s)"
  shows "list_all (reader_action c) (trace s')"
  using assms
  by (auto simp: reader_step_def kill_proc_def handle_exception_def
           split: pc.splits if_splits launch.splits sum.splits prod.splits option.splits)

lemma exec_trace:
  assumes "list_all (reader_action c) (trace s)"
  shows "list_all (reader_action c) (trace (exec denv c w h ev s))"
  using assms reader_step_trace[of denv c w h s]
  by (cases ev) (auto simp: exec_def split: option.splits)

lemma run_trace:
  "list_all (reader_action c) (trace s) \<Longrightarrow>
   list_all (reader_action c) (trace (run denv c w h evs s))"
  by (induction evs arbitrary: s) (simp_all add: exec_trace)

lemma reader_step_exact:
  assumes "reader_step denv c w h s = Some s'" "frames_exact w h s"
  shows "frames_exact w h s'"
  using assms
  by (auto simp: reader_step_def kill_proc_def handle_exception_def frames_exact_def puts_append
                 reshape_ok_def mult.commute
           split: pc.splits if_splits launch.splits sum.splits prod.splits option.splits)

lemma exec_exact:
  assumes "frames_exact w h s"
  shows "frames_exact w h (exec denv c w h ev s)"
  using assms reader_step_exact[of denv c w h s]
  by (cases ev) (auto simp: exec_def frames_exact_def split: option.splits prod.splits)

lemma run_exact:
  "frames_exact w h s \<Longrightarrow> frames_exact w h (run denv c w h evs s)"
  by (induction evs arbitrary: s) (simp_all add: exec_exact)

lemma reader_step_fifo:
  assumes "reader_step denv c w h s = Some s'" "fifo_inv q s"
  shows "fifo_inv q s'"
  using assms
  by (auto simp: reader_step_def kill_proc_def handle_exception_def fifo_inv_def puts_append
                 queue_put_def
           split: pc.splits if_splits launch.splits sum.splits prod.splits option.splits)

lemma exec_fifo:
  assumes "fifo_inv q s"
  shows "fifo_inv q (exec denv c w h ev s)"
  using assms reader_step_fifo[of denv c w h s]
  by (cases ev) (auto simp: exec_def fifo_inv_def queue_get_def split: option.splits prod.splits list.splits)

lemma run_fifo:
  "fifo_inv q s \<Longrightarrow> fifo_inv q (run denv c w h evs s)"
  by (induction evs arbitrary: s) (simp_all add: exec_fifo)

lemma put_all_room:
  "length q + length fs \<le> k \<Longrightarrow> put_all k q fs = Some (q @ fs)"
  by (induction fs arbitrary: q) (auto simp: queue_put_def)

lemma get_n_all: "get_n (length fs) (fs @ q) = Some (fs, q)"
  by (induction fs) (auto simp: queue_get_def)

lemma pipe_read_full:
  "0 \<le> n \<Longrightarrow> n \<le> sys_maxsize \<Longrightarrow> n \<le> m \<Longrightarrow> nat n \<le> length bs \<Longrightarrow>
   pipe_read m n bs e = Inr (take (nat n) bs, drop (nat n) bs)"
  by (simp add: pipe_read_def sys_maxsize_def)

lemma pipe_read_short:
  "0 \<le> n \<Longrightarrow> n \<le> sys_maxsize \<Longrightarrow> n \<le> m \<Longrightarrow> \<not> nat n \<le> length bs \<Longrightarrow> e = EOF \<Longrightarrow>
   pipe_read m n bs e = Inr (bs, [])"
  by (simp add: pipe_read_def sys_maxsize_def)

lemma pipe_read_raises:
  "0 \<le> n \<Longrightarrow> sys_maxsize < n \<or> m < n \<Longrightarrow> \<exists>x. pipe_read m n bs e = Inl x"
  by (auto simp: pipe_read_def sys_maxsize_def)

text \<open>
  Claim C6. Puts of \<open>f1..fn\<close> into an empty queue of capacity at least \<open>n\<close> all go through,
  and \<open>n\<close> gets then return \<open>f1..fn\<close> in that order and leave the queue empty. In every
  run of the reader thread beside the main thread, what the main thread has received,
  followed by what the queue holds, is what the queue held at the start followed by the
  frames put, in the order of the puts: nothing is reordered, doubled or dropped.
\<close>

theorem queue_is_fifo:
  "(length fs \<le> k \<longrightarrow> put_all k [] fs = Some fs \<and> get_n (length fs) fs = Some (fs, [])) \<and>
   got (run denv c w h sched (reader_init q)) @ frame_queue (run denv c w h sched (reader_init q))
     = q @ puts (trace (run denv c w h sched (reader_init q)))"
proof -
  have "fifo_inv q (reader_init q)" by (simp add: fifo_inv_def reader_init_def)
  then have "fifo_inv q (run denv c w h sched (reader_init q))" by (rule run_fifo)
  moreover have "put_all k [] fs = Some fs" if "length fs \<le> k"
    using put_all_room[of "[]" fs k] that by simp
  moreover have "get_n (length fs) fs = Some (fs, [])"
    using get_n_all[of fs "[]"] by simp
  ultimately show ?thesis by (simp add: fifo_inv_def)
qed

theorem queue_is_fifo_witness:
  "put_all 30 [] [[1], [2], [3 :: byte]] = Some [[1], [2], [3]] \<and>
   get_n 3 [[1], [2], [3 :: byte]] = Some ([[1], [2], [3]], []) \<and>
   got (run ex_launch ex_cmd 1 1 [ReaderStep, ReaderStep, ReaderStep, ConsumerGets, ConsumerGets]
          (reader_init [[9]])) = [[9], [1, 2, 3]]"
  using queue_is_fifo[where fs = "[[1], [2], [3 :: byte]]" and k = 30 and denv = ex_launch
      and c = ex_cmd and w = 1 and h = 1
      and sched = "[ReaderStep, ReaderStep, ReaderStep, ConsumerGets, ConsumerGets]" and q = "[[9]]"]
  by (simp add: reader_eval numeral_3_eq_3)

text \<open>
  Claim C2. For a positive width and height, with \<open>n\<close> for \<^verbatim>\<open>width*height*3\<close>: where
  the read can be served (\<open>n\<close> fits a \<^verbatim>\<open>ssize_t\<close> and its buffer can be allocated), a
  read that finds the \<open>n\<close> bytes of a frame makes those bytes the frame to put and leaves
  the rest of the output unread, and a read that finds fewer bytes before the end of the
  output (none at all included) puts no frame, kills the process and goes back to the head
  of the supervisor loop, with the queue as it was; where the read cannot be served it
  raises, and the step is that of the handler of line 132, which puts no frame either; and
  every frame ever put has exactly \<open>n\<close> bytes.
\<close>

theorem framer_emits_exact_frames:
  assumes "0 < w" "0 < h"
  shows
    "(pc s = InnerHead \<and> \<not> stop_event s \<and>
      w * h * 3 \<le> sys_maxsize \<and> w * h * 3 \<le> read_max denv \<and>
      w * h * 3 \<le> int (length (stdout s)) \<longrightarrow>
        reader_step denv c w h s =
          Some (s\<lparr>pc := Putting (take (nat (w * h * 3)) (stdout s)),
                  stdout := drop (nat (w * h * 3)) (stdout s)\<rparr>)) \<and>
     (pc s = InnerHead \<and> \<not> stop_event s \<and>
      w * h * 3 \<le> sys_maxsize \<and> w * h * 3 \<le> read_max denv \<and>
      int (length (stdout s)) < w * h * 3 \<and> ending s = EOF \<longrightarrow>
        reader_step denv c w h s = Some (kill_proc (s\<lparr>stdout := []\<rparr>))) \<and>
     (pc s = InnerHead \<and> \<not> stop_event s \<and>
      (sys_maxsize < w * h * 3 \<or> read_max denv < w * h * 3) \<longrightarrow>
        reader_step denv c w h s = Some (handle_exception s)) \<and>
     pc (kill_proc s) = OuterHead \<and> frame_queue (kill_proc s) = frame_queue s \<and>
     puts (trace (kill_proc s)) = puts (trace s) \<and>
     pc (handle_exception s) = OuterHead \<and> frame_queue (handle_exception s) = frame_queue s \<and>
     puts (trace (handle_exception s)) = puts (trace s) \<and>
     (\<forall>f \<in> set (puts (trace (run denv c w h sched (reader_init q)))). int (length f) = w * h * 3)"
proof -
  have pos: "0 < w * h * 3" using assms by simp
  have a: "reader_step denv c w h s =
          Some (s\<lparr>pc := Putting (take (nat (w * h * 3)) (stdout s)),
                  stdout := drop (nat (w * h * 3)) (stdout s)\<rparr>)"
    if "pc s = InnerHead" "\<not> stop_event s" "w * h * 3 \<le> sys_maxsize"
      "w * h * 3 \<le> read_max denv" "w * h * 3 \<le> int (length (stdout s))"
  proof -
    have n: "nat (w * h * 3) \<le> length (stdout s)" using that pos by linarith
    have ne: "take (nat (w * h * 3)) (stdout s) \<noteq> []" using n pos by auto
    have len: "int (length (take (nat (w * h * 3)) (stdout s))) = w * h * 3" using n pos by simp
    have rd: "pipe_read (read_max denv) (w * h * 3) (stdout s) (ending s) =
                Inr (take (nat (w * h * 3)) (stdout s), drop (nat (w * h * 3)) (stdout s))"
      using n pos that(3,4) by (intro pipe_read_full) linarith+
    have ok: "reshape_ok w h (take (nat (w * h * 3)) (stdout s))"
      using assms len by (simp add: reshape_ok_def mult.commute)
    show ?thesis using that(1,2) rd ne len ok by (simp add: reader_step_def)
  qed
  have b: "reader_step denv c w h s = Some (kill_proc (s\<lparr>stdout := []\<rparr>))"
    if "pc s = InnerHead" "\<not> stop_event s" "w * h * 3 \<le> sys_maxsize"
      "w * h * 3 \<le> read_max denv" "int (length (stdout s)) < w * h * 3" "ending s = EOF"
  proof -
    have "\<not> nat (w * h * 3) \<le> length (stdout s)" using that(5) by linarith
    then have "pipe_read (read_max denv) (w * h * 3) (stdout s) (ending s) = Inr (stdout s, [])"
      using that(3,4,6) pos by (intro pipe_read_short) linarith+
    then show ?thesis using that(1,2,5) by (simp add: reader_step_def)
  qed
  have r: "reader_step denv c w h s = Some (handle_exception s)"
    if "pc s = InnerHead" "\<not> stop_event s" "sys_maxsize < w * h * 3 \<or> read_max denv < w * h * 3"
  proof -
    have "0 \<le> w * h * 3" using pos by linarith
    from pipe_read_raises[OF this that(3)]
    obtain x where "pipe_read (read_max denv) (w * h * 3) (stdout s) (ending s) = Inl x"
      by blast
    then show ?thesis using that(1,2) by (simp add: reader_step_def)
  qed
  have k: "pc (kill_proc s) = OuterHead \<and> frame_queue (kill_proc s) = frame_queue s \<and>
           puts (trace (kill_proc s)) = puts (trace s)"
    by (simp add: kill_proc_def puts_append split: option.splits)
  have x: "pc (handle_exception s) = OuterHead \<and> frame_queue (handle_exception s) = frame_queue s \<and>
           puts (trace (handle_exception s)) = puts (trace s)"
    by (simp add: handle_exception_def puts_append)
  have "frames_exact w h (reader_init q)" by (simp add: frames_exact_def reader_init_def)
  then have "frames_exact w h (run denv c w h sched (reader_init q))" by (rule run_exact)
  then have e: "\<forall>f \<in> set (puts (trace (run denv c w h sched (reader_init q)))). int (length f) = w * h * 3"
    by (simp add: frames_exact_def)
  from a b r k x e show ?thesis by blast
qed

theorem framer_emits_exact_frames_witness:
  "(0::int) < 1 \<and>
   reader_step ex_launch ex_cmd 1 1 ((reader_init [])\<lparr>pc := InnerHead, stdout := [1, 2, 3, 4]\<rparr>)
     = Some ((reader_init [])\<lparr>pc := Putting [1, 2, 3], stdout := [4]\<rparr>) \<and>
   reader_step ex_launch ex_cmd 1 1 ((reader_init [])\<lparr>pc := InnerHead, stdout := [4]\<rparr>)
     = Some (kill_proc ((reader_init [])\<lparr>pc := InnerHead, stdout := []\<rparr>)) \<and>
   reader_step ex_launch ex_cmd 4611686018427387904 1
       ((reader_init [])\<lparr>pc := InnerHead, stdout := [4]\<rparr>)
     = Some (handle_exception ((reader_init [])\<lparr>pc := InnerHead, stdout := [4]\<rparr>)) \<and>
   puts (trace (run ex_launch ex_cmd 1 1 [ReaderStep, ReaderStep, ReaderStep, ReaderStep] (reader_init [])))
     = [[1, 2, 3]]"
proof -
  have pos: "(0::int) < 1" by simp
  have big: "(0::int) < 4611686018427387904" by simp
  let ?s = "(reader_init [])\<lparr>pc := InnerHead, stdout := [1, 2, 3, 4]\<rparr>"
  let ?t = "(reader_init [])\<lparr>pc := InnerHead, stdout := [4]\<rparr>"
  have s: "pc ?s = InnerHead \<and> \<not> stop_event ?s \<and>
           1 * 1 * 3 \<le> sys_maxsize \<and> 1 * 1 * 3 \<le> read_max ex_launch \<and>
           1 * 1 * 3 \<le> int (length (stdout ?s))"
    by (simp add: reader_init_def sys_maxsize_def ex_launch_def)
  have t: "pc ?t = InnerHead \<and> \<not> stop_event ?t \<and>
           1 * 1 * 3 \<le> sys_maxsize \<and> 1 * 1 * 3 \<le> read_max ex_launch \<and>
           int (length (stdout ?t)) < 1 * 1 * 3 \<and> ending ?t = EOF"
    by (simp add: reader_init_def sys_maxsize_def ex_launch_def)
  have u: "pc ?t = InnerHead \<and> \<not> stop_event ?t \<and>
           (sys_maxsize < 4611686018427387904 * 1 * 3 \<or> read_max ex_launch < 4611686018427387904 * 1 * 3)"
    by (simp add: reader_init_def sys_maxsize_def)
  have a: "reader_step ex_launch ex_cmd 1 1 ?s =
             Some (?s\<lparr>pc := Putting (take (nat (1 * 1 * 3)) (stdout ?s)),
                      stdout := drop (nat (1 * 1 * 3)) (stdout ?s)\<rparr>)"
    using framer_emits_exact_frames[OF pos pos, where s = ?s and denv = ex_launch and c = ex_cmd] s
    by blast
  have b: "reader_step ex_launch ex_cmd 1 1 ?t = Some (kill_proc (?t\<lparr>stdout := []\<rparr>))"
    using framer_emits_exact_frames[OF pos pos, where s = ?t and denv = ex_launch and c = ex_cmd] t
    by blast
  have r: "reader_step ex_launch ex_cmd 4611686018427387904 1 ?t = Some (handle_exception ?t)"
    using framer_emits_exact_frames[OF big pos, where s = ?t and denv = ex_launch and c = ex_cmd] u
    by blast
  have c: "puts (trace (run ex_launch ex_cmd 1 1 [ReaderStep, ReaderStep, ReaderStep, ReaderStep] (reader_init [])))
     = [[1, 2, 3]]"
    by (simp add: reader_eval)
  have a': "?s\<lparr>pc := Putting (take (nat (1 * 1 * 3)) (stdout ?s)), stdout := drop (nat (1 * 1 * 3)) (stdout ?s)\<rparr>
            = (reader_init [])\<lparr>pc := Putting [1, 2, 3], stdout := [4]\<rparr>"
    by (simp add: reader_init_def numeral_3_eq_3)
  have b': "?t\<lparr>stdout := []\<rparr> = (reader_init [])\<lparr>pc := InnerHead, stdout := []\<rparr>"
    by (simp add: reader_init_def)
  from a b r c a' b' pos show ?thesis by simp
qed

text \<open>
  Claim C5, as the code has it. The reader thread at its \<^verbatim>\<open>put\<close> cannot move exactly
  while the queue holds its 30 frames; whether \<^verbatim>\<open>stop_event\<close> is set makes no difference
  to the step; and once a get has taken a frame from the full queue, the put goes through
  and appends the frame. For a queue of capacity \<open>k\<close>: \<open>k\<close> puts go through, the next one
  must wait, and it goes through after one get.
\<close>

theorem put_blocks_while_full:
  "(pc s = Putting f \<longrightarrow>
      (reader_step denv c w h s = None \<longleftrightarrow> maxsize \<le> length (frame_queue s)) \<and>
      reader_step denv c w h (s\<lparr>stop_event := b\<rparr>) =
        map_option (\<lambda>t. t\<lparr>stop_event := b\<rparr>) (reader_step denv c w h s) \<and>
      (length (frame_queue s) = maxsize \<longrightarrow>
         reader_step denv c w h (exec denv c w h ConsumerGets s) =
           Some (s\<lparr>pc := InnerHead, frame_queue := tl (frame_queue s) @ [f],
                   got := got s @ [hd (frame_queue s)], trace := trace s @ [QueuePut f]\<rparr>))) \<and>
   (0 < k \<and> length q = k \<longrightarrow>
      put_all k [] q = Some q \<and> queue_put k q x = None \<and>
      queue_get q = Some (hd q, tl q) \<and> queue_put k (tl q) x = Some (tl q @ [x]))"
proof -
  have 1: "(reader_step denv c w h s = None \<longleftrightarrow> maxsize \<le> length (frame_queue s))"
    if "pc s = Putting f"
    using that by (simp add: reader_step_def queue_put_def maxsize_def)
  have 2: "reader_step denv c w h (s\<lparr>stop_event := b\<rparr>) =
        map_option (\<lambda>t. t\<lparr>stop_event := b\<rparr>) (reader_step denv c w h s)"
    if "pc s = Putting f"
    using that by (simp add: reader_step_def queue_put_def)
  have 3: "reader_step denv c w h (exec denv c w h ConsumerGets s) =
           Some (s\<lparr>pc := InnerHead, frame_queue := tl (frame_queue s) @ [f],
                   got := got s @ [hd (frame_queue s)], trace := trace s @ [QueuePut f]\<rparr>)"
    if p: "pc s = Putting f" and l: "length (frame_queue s) = maxsize"
  proof -
    obtain y q' where q: "frame_queue s = y # q'"
      using l by (cases "frame_queue s") (auto simp: maxsize_def)
    with p l show ?thesis
      by (simp add: exec_def queue_get_def reader_step_def queue_put_def maxsize_def)
  qed
  have 4: "put_all k [] q = Some q \<and> queue_put k q x = None \<and>
      queue_get q = Some (hd q, tl q) \<and> queue_put k (tl q) x = Some (tl q @ [x])"
    if k: "0 < k" and l: "length q = k"
  proof -
    obtain y q' where q: "q = y # q'" using k l by (cases q) auto
    have "put_all k [] q = Some q" using put_all_room[of "[]" q k] l by simp
    with k l q show ?thesis by (auto simp: queue_put_def queue_get_def)
  qed
  show ?thesis using 1 2 3 4 by (intro conjI impI) auto
qed

theorem put_blocks_while_full_witness:
  "reader_step ex_launch ex_cmd 1 1 ((reader_init (replicate 30 []))\<lparr>pc := Putting [1, 2, 3]\<rparr>) = None \<and>
   reader_step ex_launch ex_cmd 1 1
     ((reader_init (replicate 30 []))\<lparr>pc := Putting [1, 2, 3], stop_event := True\<rparr>) = None \<and>
   reader_step ex_launch ex_cmd 1 1
     (exec ex_launch ex_cmd 1 1 ConsumerGets ((reader_init (replicate 30 []))\<lparr>pc := Putting [1, 2, 3]\<rparr>))
     = Some ((reader_init (replicate 30 []))\<lparr>pc := InnerHead,
               frame_queue := replicate 29 [] @ [[1, 2, 3]], got := [[]],
               trace := [QueuePut [1, 2, 3]]\<rparr>) \<and>
   put_all 2 [] [[1], [2 :: byte]] = Some [[1], [2]] \<and> queue_put 2 [[1], [2]] [3 :: byte] = None \<and>
   queue_put 2 [[2]] [3 :: byte] = Some [[2], [3]]"
  using put_blocks_while_full[of "(reader_init (replicate 30 []))\<lparr>pc := Putting [1, 2, 3]\<rparr>"
      "[1, 2, 3]" ex_launch ex_cmd 1 1 True 2 "[[1], [2]]" "[3]"]
  by (simp add: reader_eval)

text \<open>
  Claim C5 as stated fails where the event is set while the reader thread is at its
  \<^verbatim>\<open>put\<close>: with room in the queue the frame is enqueued all the same, and with a full
  queue the thread stays in \<^verbatim>\<open>put\<close> and does not return.
\<close>

theorem put_ignores_shutdown_counterexample:
  "pc (run ex_launch ex_cmd 1 1 [ReaderStep, ReaderStep, MainSetsStop] (reader_init [])) = Putting [1, 2, 3] \<and>
   stop_event (run ex_launch ex_cmd 1 1 [ReaderStep, ReaderStep, MainSetsStop] (reader_init [])) \<and>
   frame_queue (run ex_launch ex_cmd 1 1 [ReaderStep, ReaderStep, MainSetsStop] (reader_init [])) = [] \<and>
   frame_queue (run ex_launch ex_cmd 1 1 [ReaderStep, ReaderStep, MainSetsStop, ReaderStep] (reader_init []))
     = [[1, 2, 3]] \<and>
   pc (run ex_launch ex_cmd 1 1 [ReaderStep, ReaderStep, MainSetsStop, ReaderStep, ReaderStep]
         (reader_init (replicate 30 []))) = Putting [1, 2, 3] \<and>
   reader_step ex_launch ex_cmd 1 1
     (run ex_launch ex_cmd 1 1 [ReaderStep, ReaderStep, MainSetsStop, ReaderStep, ReaderStep]
         (reader_init (replicate 30 []))) = None"
  by (simp add: reader_eval)

text \<open>
  Claim C8, as the code has it. The controller probes at the start of every pass of its
  loop and starts the reader thread on the descriptor built from that very probe: once at
  the start, and once more after the switch from hardware to software. The reader thread
  denv every process with the command it was given and never probes.
\<close>

theorem descriptor_resolved_per_pass:
  "setups (acts (main a e evs)) =
     (if (gpu_available e \<and> \<not> force_cpu a) \<and>
         fst (consume_loop (no_preview a) False evs) = QuitKey \<and> joins e 0
      then pass_setup a e 0 True @ pass_setup a e 1 False
      else pass_setup a e 0 (gpu_available e \<and> \<not> force_cpu a)) \<and>
   list_all (reader_action c) (trace (run denv c w h sched (reader_init q)))"
proof -
  obtain ex1 acts1 rest1 where c1: "consume_loop (no_preview a) False evs = (ex1, acts1, rest1)"
    by (cases "consume_loop (no_preview a) False evs") auto
  obtain ex2 acts2 rest2 where c2: "consume_loop (no_preview a) False rest1 = (ex2, acts2, rest2)"
    by (cases "consume_loop (no_preview a) False rest1") auto
  have m1: "setups acts1 = []" using consume_loop_setups[of "no_preview a" evs] c1 by simp
  have m2: "setups acts2 = []" using consume_loop_setups[of "no_preview a" rest1] c2 by simp
  have "list_all (reader_action c) (trace (reader_init q))" by (simp add: reader_init_def)
  then have "list_all (reader_action c) (trace (run denv c w h sched (reader_init q)))"
    by (rule run_trace)
  then show ?thesis
    using main_two_passes[OF c1 c2, of e] c1 m1 m2
    by (simp add: setups_append setups_pass_setup setups_teardown)
qed

theorem descriptor_resolved_per_pass_witness:
  "setups (acts (main ex_args ex_env [GetFrame [] 113, CtrlC])) =
     pass_setup ex_args ex_env 0 True @ pass_setup ex_args ex_env 1 False \<and>
   list_all (reader_action ex_cmd)
     (trace (run ex_launch ex_cmd 1 1 [ReaderStep, ReaderStep, ReaderStep, ReaderStep, ReaderStep]
               (reader_init [])))"
  using descriptor_resolved_per_pass[where a = ex_args and e = ex_env and evs = "[GetFrame [] 113, CtrlC]"
      and c = ex_cmd and denv = ex_launch and w = 1 and h = 1
      and sched = "[ReaderStep, ReaderStep, ReaderStep, ReaderStep, ReaderStep]" and q = "[]"]
  by (simp add: ex_args_def ex_env_def)

text \<open>
  Claim C8 as stated fails for the relaunch by the supervisor: after the first session has
  ended, the second process is started with the same command and without a probe.
\<close>

theorem supervisor_relaunch_counterexample:
  "trace (run ex_launch ex_cmd 1 1 [ReaderStep, ReaderStep, ReaderStep, ReaderStep, ReaderStep]
            (reader_init []))
     = [Popen ex_cmd, QueuePut [1, 2, 3], Kill 0, Sleep 1, Popen ex_cmd] \<and>
   setups (trace (run ex_launch ex_cmd 1 1 [ReaderStep, ReaderStep, ReaderStep, ReaderStep, ReaderStep]
            (reader_init []))) = []"
  by (simp add: reader_eval)

text \<open>
  Claim C3 fails on the code where an exception is raised while streaming: the handler of
  line 132 sleeps and the loop goes on, and \<^verbatim>\<open>proc.kill()\<close> at line 130 is not reached.
  With a width of -2 the frame size is negative and \<^verbatim>\<open>read\<close> raises ValueError; the
  process of the first launch is still live at the head of the loop, and the next launch
  adds a second one. The same happens when the read fails on the pipe, and when the frame
  size does not fit a \<^verbatim>\<open>ssize_t\<close> (a width of 2^62) and \<^verbatim>\<open>read\<close> raises OverflowError.
\<close>

theorem supervisor_leaks_on_exception:
  "pc (run \<lparr>launch_at = (\<lambda>i. Started [] EOF), read_max = 100000000\<rparr> ex_cmd (- 2) 360
         [ReaderStep, ReaderStep] (reader_init [])) = OuterHead \<and>
   live (run \<lparr>launch_at = (\<lambda>i. Started [] EOF), read_max = 100000000\<rparr> ex_cmd (- 2) 360
         [ReaderStep, ReaderStep] (reader_init [])) = [0] \<and>
   trace (run \<lparr>launch_at = (\<lambda>i. Started [] EOF), read_max = 100000000\<rparr> ex_cmd (- 2) 360
         [ReaderStep, ReaderStep] (reader_init []))
     = [Popen ex_cmd, Sleep 2] \<and>
   live (run \<lparr>launch_at = (\<lambda>i. Started [] EOF), read_max = 100000000\<rparr> ex_cmd (- 2) 360
         [ReaderStep, ReaderStep, ReaderStep] (reader_init []))
     = [1, 0] \<and>
   pc (run \<lparr>launch_at = (\<lambda>i. Started [] ReadFails), read_max = 100000000\<rparr> ex_cmd 640 360
         [ReaderStep, ReaderStep] (reader_init [])) = OuterHead \<and>
   live (run \<lparr>launch_at = (\<lambda>i. Started [] ReadFails), read_max = 100000000\<rparr> ex_cmd 640 360
         [ReaderStep, ReaderStep] (reader_init [])) = [0] \<and>
   pc (run \<lparr>launch_at = (\<lambda>i. Started [] EOF), read_max = 100000000\<rparr> ex_cmd 4611686018427387904 1
         [ReaderStep, ReaderStep] (reader_init [])) = OuterHead \<and>
   live (run \<lparr>launch_at = (\<lambda>i. Started [] EOF), read_max = 100000000\<rparr> ex_cmd 4611686018427387904 1
         [ReaderStep, ReaderStep] (reader_init [])) = [0] \<and>
   trace (run \<lparr>launch_at = (\<lambda>i. Started [] EOF), read_max = 100000000\<rparr> ex_cmd 4611686018427387904 1
         [ReaderStep, ReaderStep] (reader_init []))
     = [Popen ex_cmd, Sleep 2]"
  by (simp add: reader_eval)

section \<open>Further properties of the supervisor\<close>

lemma pipe_read_eof:
  "0 \<le> n \<Longrightarrow> n \<le> sys_maxsize \<Longrightarrow> n \<le> m \<Longrightarrow> \<exists>raw rest. pipe_read m n bs EOF = Inr (raw, rest)"
  by (simp add: pipe_read_def sys_maxsize_def)

lemma reader_step_no_leak:
  assumes clean: "\<forall>i bs. launch_at denv i \<noteq> Started bs ReadFails"
    and size: "0 \<le> w * h * 3" "w * h * 3 \<le> sys_maxsize" "w * h * 3 \<le> read_max denv"
    and step: "reader_step denv c w h s = Some s'" and inv: "no_leak s"
  shows "no_leak s'"
proof (cases "pc s")
  case OuterHead
  show ?thesis
  proof (cases "launch_at denv (launched s)")
    case LaunchRaises
    with step inv OuterHead show ?thesis
      by (auto simp: reader_step_def no_leak_def handle_exception_def split: if_splits)
  next
    case (Started bs e)
    with clean have "e = EOF" by (cases e) auto
    with Started step inv OuterHead show ?thesis
      by (auto simp: reader_step_def no_leak_def split: if_splits)
  qed
next
  case InnerHead
  with inv obtain p where p: "proc s = Some p" "live s = [p]" "ending s = EOF"
    by (auto simp: no_leak_def)
  obtain raw rest where rd: "pipe_read (read_max denv) (w * h * 3) (stdout s) (ending s) = Inr (raw, rest)"
    using pipe_read_eof[OF size] p(3) by metis
  from step InnerHead p rd show ?thesis
    by (auto simp: reader_step_def no_leak_def kill_proc_def split: if_splits)
next
  case (Putting f)
  with step inv show ?thesis
    by (auto simp: reader_step_def no_leak_def split: option.splits)
next
  case Returned
  with step show ?thesis by (simp add: reader_step_def)
qed

lemma run_no_leak:
  assumes clean: "\<forall>i bs. launch_at denv i \<noteq> Started bs ReadFails"
    and size: "0 \<le> w * h * 3" "w * h * 3 \<le> sys_maxsize" "w * h * 3 \<le> read_max denv"
  shows "no_leak s \<Longrightarrow> no_leak (run denv c w h evs s)"
proof (induction evs arbitrary: s)
  case Nil
  then show ?case by simp
next
  case (Cons ev evs)
  have "no_leak (exec denv c w h ev s)"
  proof (cases ev)
    case ReaderStep
    with Cons.prems reader_step_no_leak[OF clean size, of c s] show ?thesis
      by (auto simp: exec_def split: option.splits)
  next
    case MainSetsStop
    with Cons.prems show ?thesis by (auto simp: exec_def no_leak_def split: pc.splits)
  next
    case ConsumerGets
    with Cons.prems show ?thesis
      by (auto simp: exec_def no_leak_def split: pc.splits option.splits)
  qed
  then show ?case using Cons.IH by simp
qed

text \<open>
  Where no read raises (every process that starts ends its output with an end of file, and
  the frame size is not negative, fits a \<^verbatim>\<open>ssize_t\<close> and can be allocated), the
  supervisor has killed every process it started whenever it is at the head of its loop or
  has returned.
\<close>

lemma supervisor_kills_without_exception:
  assumes "\<forall>i bs. launch_at denv i \<noteq> Started bs ReadFails"
    and "0 \<le> w * h * 3" and "w * h * 3 \<le> sys_maxsize" and "w * h * 3 \<le> read_max denv"
    and "pc (run denv c w h evs (reader_init q)) = OuterHead \<or>
         pc (run denv c w h evs (reader_init q)) = Returned"
  shows "live (run denv c w h evs (reader_init q)) = []"
proof -
  have "no_leak (reader_init q)" by (simp add: no_leak_def reader_init_def)
  then have "no_leak (run denv c w h evs (reader_init q))"
    by (rule run_no_leak[OF assms(1-4)])
  with assms(5) show ?thesis by (auto simp: no_leak_def)
qed

text \<open>
  Once the event is set, the reader thread returns within three steps, unless it is held in
  \<^verbatim>\<open>put\<close> by a full queue: then it stays there as long as nothing is taken from the
  queue, and a join of the thread does not return.
\<close>

lemma reader_returns_after_stop:
  assumes "stop_event s" and "\<forall>f. pc s = Putting f \<longrightarrow> length (frame_queue s) < maxsize"
  shows "pc (run denv c w h [ReaderStep, ReaderStep, ReaderStep] s) = Returned"
  using assms
  by (cases "pc s")
     (auto simp: exec_def reader_step_def kill_proc_def queue_put_def split: option.splits)

lemma reader_held_in_put:
  assumes "pc s = Putting f" and "maxsize \<le> length (frame_queue s)"
  shows "run denv c w h (replicate n ReaderStep) (s\<lparr>stop_event := True\<rparr>) = s\<lparr>stop_event := True\<rparr>"
  using assms
  by (induction n) (auto simp: exec_def reader_step_def queue_put_def maxsize_def)

end
